theory Spec2Isabelle
  imports Complex_Main "HOL-Library.Word" "HOL-Library.Char_ord" "HOL-Library.List_Lexorder"
    "HOL-Library.Product_Lexorder"
begin

section \<open>Protein interaction network: the atom table\<close>

text \<open>
  A shallow embedding of \<^verbatim>\<open>proteingraph/pin.py\<close>. Python exceptions are values of
  \<open>error\<close>; a function that can raise returns \<open>error + 'a\<close> with \<open>Inl\<close> for the
  exception. Coordinates and distances are real numbers: the rounding of IEEE doubles
  is not modelled. Residue numbers are the 64-bit integers of the \<^verbatim>\<open>residue_number\<close>
  column (numpy's \<^verbatim>\<open>int64\<close>), whose arithmetic wraps around.
\<close>

datatype error = AssertionError | KeyError | IndexError | ValueError | RuntimeError

definition ebind :: "error + 'a \<Rightarrow> ('a \<Rightarrow> error + 'b) \<Rightarrow> error + 'b" where
  "ebind m f = (case m of Inl e \<Rightarrow> Inl e | Inr x \<Rightarrow> f x)"

subsection \<open>Atom records and the derived node identifier\<close>

text \<open>
  One row of the atom table, with the columns \<^verbatim>\<open>read_pdb\<close> keeps. The column
  \<^verbatim>\<open>node_id\<close> is derived by \<^verbatim>\<open>read_pdb\<close> as
  \<^verbatim>\<open>chain_id + residue_number.map(str) + residue_name\<close> and never written again, so it
  is a function of the row.
\<close>

type_synonym int64 = "64 word"

record atom =
  record_name :: string
  atom_name :: string
  residue_name :: string
  chain_id :: string
  residue_number :: int64
  x_coord :: real
  y_coord :: real
  z_coord :: real

definition digit_char :: "nat \<Rightarrow> char" where
  "digit_char d = ''0123456789'' ! (d mod 10)"

function str_nat :: "nat \<Rightarrow> string" where
  "str_nat n = (if n < 10 then [digit_char n] else str_nat (n div 10) @ [digit_char (n mod 10)])"
  by pat_completeness auto
termination
  by (relation "measure (\<lambda>n. n)") auto

declare str_nat.simps [simp del]

text \<open>Python's \<^verbatim>\<open>str\<close> of an integer: decimal digits, a minus sign when negative.\<close>

definition str_int :: "int \<Rightarrow> string" where
  "str_int i = (if i < 0 then CHR ''-'' # str_nat (nat (- i)) else str_nat (nat i))"

text \<open>
  The f-string \<^verbatim>\<open>f"{chain}{pos}{aa}"\<close>, which is also the \<^verbatim>\<open>node_id\<close> column. The
  position is a signed 64-bit integer and prints as one.
\<close>

definition mk_node_id :: "string \<Rightarrow> int64 \<Rightarrow> string \<Rightarrow> string" where
  "mk_node_id chain pos aa = chain @ str_int (sint pos) @ aa"

definition node_id :: "atom \<Rightarrow> string" where
  "node_id r = mk_node_id (chain_id r) (residue_number r) (residue_name r)"

subsection \<open>Data frames\<close>

text \<open>
  A data frame is an ordered list of rows, each with its index label. A cell is a
  string, a 64-bit integer or a float; \<open>column\<close> reads a cell by column name and is
  \<open>None\<close> for a name the table does not have (pandas raises \<^verbatim>\<open>KeyError\<close>).
\<close>

datatype cell = Str string | Num int64 | Flt real

type_synonym dataframe = "(nat \<times> atom) list"

definition column :: "string \<Rightarrow> atom \<Rightarrow> cell option" where
  "column c r =
    (if c = ''record_name'' then Some (Str (record_name r))
     else if c = ''atom_name'' then Some (Str (atom_name r))
     else if c = ''residue_name'' then Some (Str (residue_name r))
     else if c = ''chain_id'' then Some (Str (chain_id r))
     else if c = ''residue_number'' then Some (Num (residue_number r))
     else if c = ''x_coord'' then Some (Flt (x_coord r))
     else if c = ''y_coord'' then Some (Flt (y_coord r))
     else if c = ''z_coord'' then Some (Flt (z_coord r))
     else if c = ''node_id'' then Some (Str (node_id r))
     else None)"

definition has_column :: "string \<Rightarrow> bool" where
  "has_column c = (c \<in> set [''record_name'', ''atom_name'', ''residue_name'', ''chain_id'',
     ''residue_number'', ''x_coord'', ''y_coord'', ''z_coord'', ''node_id''])"

text \<open>
  The conversion of an integer to a double: round to nearest, ties to even, on a
  significand of 53 bits. Every 64-bit integer is within the range of the doubles.
\<close>

function bit_length :: "nat \<Rightarrow> nat" where
  "bit_length n = (if n = 0 then 0 else Suc (bit_length (n div 2)))"
  by pat_completeness auto
termination
  by (relation "measure (\<lambda>n. n)") auto

declare bit_length.simps [simp del]

definition to_double :: "int \<Rightarrow> real" where
  "to_double i =
    (let n = nat \<bar>i\<bar>; e = bit_length n - 53; q = n div 2 ^ e; r = n mod 2 ^ e;
         q' = (if 2 * r > 2 ^ e \<or> (2 * r = 2 ^ e \<and> odd q) then q + 1 else q)
     in real_of_int (sgn i) * real (q' * 2 ^ e))"

text \<open>
  The equality of Python on two cells: numbers are compared by value, whether integer
  or float, and a string equals only the same string.
\<close>

fun py_eq :: "cell \<Rightarrow> cell \<Rightarrow> bool" where
  "py_eq (Str s) (Str t) = (s = t)"
| "py_eq (Num i) (Num j) = (i = j)"
| "py_eq (Num i) (Flt y) = (real_of_int (sint i) = y)"
| "py_eq (Flt x) (Num j) = (x = real_of_int (sint j))"
| "py_eq (Flt x) (Flt y) = (x = y)"
| "py_eq v w = False"

fun is_str :: "cell \<Rightarrow> bool" where
  "is_str (Str s) = True"
| "is_str v = False"

fun is_flt :: "cell \<Rightarrow> bool" where
  "is_flt (Flt x) = True"
| "is_flt v = False"

fun as_double :: "cell \<Rightarrow> real option" where
  "as_double (Str s) = None"
| "as_double (Num j) = Some (to_double (sint j))"
| "as_double (Flt y) = Some y"

text \<open>
  \<^verbatim>\<open>Series.isin\<close> of pandas on one cell of the column. The list of values becomes an
  array: of objects when it holds a string, of doubles when it holds a float and no
  string, of 64-bit integers otherwise. A cell of an integer column is compared with
  an array of doubles after both are converted to doubles; every other comparison is
  the equality of Python on the objects.
\<close>

definition isin :: "cell \<Rightarrow> cell list \<Rightarrow> bool" where
  "isin v list_of_values =
    (case v of
       Num i \<Rightarrow>
         if \<not> list_ex is_str list_of_values \<and> list_ex is_flt list_of_values
         then list_ex (\<lambda>w. as_double w = Some (to_double (sint i))) list_of_values
         else list_ex (py_eq v) list_of_values
     | _ \<Rightarrow> list_ex (py_eq v) list_of_values)"

text \<open>\<^verbatim>\<open>df[by_column].isin(list_of_values) == boolean\<close>, one row.\<close>

definition row_selected :: "string \<Rightarrow> cell list \<Rightarrow> bool \<Rightarrow> atom \<Rightarrow> bool" where
  "row_selected by_column list_of_values boolean r =
    ((case column by_column r of None \<Rightarrow> False | Some v \<Rightarrow> isin v list_of_values) = boolean)"

text \<open>\<^verbatim>\<open>reset_index(drop=True)\<close>: the labels become 0, 1, 2, ... in row order.\<close>

definition reset_index :: "dataframe \<Rightarrow> dataframe" where
  "reset_index df = zip [0..<length df] (map snd df)"

text \<open>
  \<^verbatim>\<open>filter_dataframe\<close> at the level of values: the rows kept, in their order,
  relabelled. It is what the detectors below consume.
\<close>

definition filter_dataframe :: "dataframe \<Rightarrow> string \<Rightarrow> cell list \<Rightarrow> bool \<Rightarrow> error + dataframe" where
  "filter_dataframe dataframe by_column list_of_values boolean =
    (if \<not> has_column by_column then Inl KeyError
     else Inr (reset_index (filter (\<lambda>(i, r). row_selected by_column list_of_values boolean r) dataframe)))"

subsection \<open>The same function over a store of mutable data frames\<close>





section \<open>Constants of the missing module \<^verbatim>\<open>resi_atoms\<close>\<close>

text \<open>
  \<^verbatim>\<open>pin.py\<close> imports its residue and atom tables from \<^verbatim>\<open>resi_atoms.py\<close>. They
  are a parameter of every function that reads one, so that a theorem holds for
  whatever the tables contain. The two feature tables map a residue name to the one
  cell that \<^verbatim>\<open>compute_node_features\<close> takes from them.
\<close>

record resi_atoms =
  AA_RING_ATOMS :: "(string \<times> string list) list"
  AROMATIC_RESIS :: "string list"
  BACKBONE_ATOMS :: "string list"
  CATION_PI_RESIS :: "string list"
  CATION_RESIS :: "string list"
  DISULFIDE_ATOMS :: "string list"
  DISULFIDE_RESIS :: "string list"
  HYDROPHOBIC_RESIS :: "string list"
  IONIC_RESIS :: "string list"
  ISOELECTRIC_POINTS_STD :: "(string \<times> real) list"
  MOLECULAR_WEIGHTS_STD :: "(string \<times> real) list"
  NEG_AA :: "string list"
  PI_RESIS :: "string list"
  POS_AA :: "string list"
  RESI_NAMES :: "string list"

text \<open>
  Modelled from the spec: \<^verbatim>\<open>BOND_TYPES\<close> of the missing module
  \<^verbatim>\<open>resi_atoms\<close> is the bond vocabulary, which the specification lists in full
  ("backbone, hydrophobic, disulfide, hbond, ionic, aromatic, aromatic_sulphur,
  cation_pi, delaunay").
\<close>

definition BOND_TYPES :: "string list" where
  "BOND_TYPES = [''backbone'', ''hydrophobic'', ''disulfide'', ''hbond'', ''ionic'',
     ''aromatic'', ''aromatic_sulphur'', ''cation_pi'', ''delaunay'']"

section \<open>Distances\<close>

type_synonym point = "real \<times> real \<times> real"

definition euclidean :: "point \<Rightarrow> point \<Rightarrow> real" where
  "euclidean p q =
    (case p of (x1, y1, z1) \<Rightarrow> case q of (x2, y2, z2) \<Rightarrow>
       sqrt ((x1 - x2)\<^sup>2 + (y1 - y2)\<^sup>2 + (z1 - z2)\<^sup>2))"

definition coords :: "dataframe \<Rightarrow> point list" where
  "coords df = map (\<lambda>(i, r). (x_coord r, y_coord r, z_coord r)) df"

text \<open>
  \<^verbatim>\<open>compute_distmat\<close>: the square matrix of pairwise distances, by position. On a
  table without rows \<^verbatim>\<open>squareform\<close> gives a 1 by 1 matrix, and assigning the empty
  index to it raises \<^verbatim>\<open>ValueError\<close>.
\<close>

definition compute_distmat :: "point list \<Rightarrow> error + real list list" where
  "compute_distmat ps =
    (if ps = [] then Inl ValueError
     else Inr (map (\<lambda>p. map (\<lambda>q. euclidean p q) ps) ps))"

text \<open>\<^verbatim>\<open>np.where(cond)\<close> on a matrix: the positions that satisfy it, row by row.\<close>

definition np_where :: "(real \<Rightarrow> bool) \<Rightarrow> real list list \<Rightarrow> (nat \<times> nat) list" where
  "np_where cond m =
    concat (map (\<lambda>i. map (\<lambda>j. (i, j)) (filter (\<lambda>j. cond (m ! i ! j)) [0..<length (m ! i)]))
      [0..<length m])"

definition get_interacting_atoms :: "real \<Rightarrow> real list list \<Rightarrow> (nat \<times> nat) list" where
  "get_interacting_atoms angstroms distmat = np_where (\<lambda>d. d \<le> angstroms) distmat"

section \<open>The graph\<close>

text \<open>
  A networkx graph: the nodes in insertion order, each with its attribute dictionary
  (\<open>None\<close> for a node that \<^verbatim>\<open>add_edge\<close> created, which has no attributes), and the
  edges, each stored once under the orientation it was created with and found under
  either. The order in which networkx enumerates edges is not modelled: the edge list
  is in creation order.
\<close>

record node_data =
  nd_chain_id :: string
  nd_residue_number :: int64
  nd_residue_name :: string
  nd_x_coord :: real
  nd_y_coord :: real
  nd_z_coord :: real
  nd_features :: "real list option"

record edge_data =
  kind :: "string set"
  features :: "real list option"

record graph =
  nodes :: "(string \<times> node_data option) list"
  edges :: "((string \<times> string) \<times> edge_data) list"

definition empty_graph :: graph where
  "empty_graph = \<lparr>nodes = [], edges = []\<rparr>"

definition edge_is :: "string \<Rightarrow> string \<Rightarrow> string \<times> string \<Rightarrow> bool" where
  "edge_is u v k = (k = (u, v) \<or> k = (v, u))"

definition has_node :: "graph \<Rightarrow> string \<Rightarrow> bool" where
  "has_node G n = (n \<in> set (map fst (nodes G)))"

definition has_edge :: "graph \<Rightarrow> string \<Rightarrow> string \<Rightarrow> bool" where
  "has_edge G u v = list_ex (\<lambda>(k, d). edge_is u v k) (edges G)"

definition edge_attrs :: "graph \<Rightarrow> string \<Rightarrow> string \<Rightarrow> edge_data option" where
  "edge_attrs G u v = map_option snd (find (\<lambda>(k, d). edge_is u v k) (edges G))"

definition touch_node :: "string \<Rightarrow> (string \<times> node_data option) list
    \<Rightarrow> (string \<times> node_data option) list" where
  "touch_node n ns = (if n \<in> set (map fst ns) then ns else ns @ [(n, None)])"

text \<open>\<^verbatim>\<open>G.add_node(n, **attr)\<close>: a new node, or new attributes for an old one.\<close>

definition add_node :: "graph \<Rightarrow> string \<Rightarrow> node_data \<Rightarrow> graph" where
  "add_node G n d =
    (if has_node G n
     then G\<lparr>nodes := map (\<lambda>(m, a). if m = n then (m, Some d) else (m, a)) (nodes G)\<rparr>
     else G\<lparr>nodes := nodes G @ [(n, Some d)]\<rparr>)"

text \<open>
  \<^verbatim>\<open>G.add_edge(u, v, kind=ks)\<close>: both endpoints become nodes; an existing edge has its
  \<^verbatim>\<open>kind\<close> replaced, a new edge has only that attribute.
\<close>

definition add_edge :: "graph \<Rightarrow> string \<Rightarrow> string \<Rightarrow> string set \<Rightarrow> graph" where
  "add_edge G u v ks =
    (let ns = touch_node v (touch_node u (nodes G)) in
     if has_edge G u v
     then G\<lparr>nodes := ns,
            edges := map (\<lambda>(k, d). if edge_is u v k then (k, d\<lparr>kind := ks\<rparr>) else (k, d)) (edges G)\<rparr>
     else G\<lparr>nodes := ns, edges := edges G @ [((u, v), \<lparr>kind = ks, features = None\<rparr>)]\<rparr>)"

text \<open>\<^verbatim>\<open>G.edges[u, v]["kind"].add(k)\<close> and \<^verbatim>\<open>.remove(k)\<close>, on an edge that exists.\<close>

definition kind_add :: "graph \<Rightarrow> string \<Rightarrow> string \<Rightarrow> string \<Rightarrow> graph" where
  "kind_add G u v k =
    G\<lparr>edges := map (\<lambda>(key, d). if edge_is u v key then (key, d\<lparr>kind := insert k (kind d)\<rparr>)
                                else (key, d)) (edges G)\<rparr>"

definition kind_remove :: "graph \<Rightarrow> string \<Rightarrow> string \<Rightarrow> string \<Rightarrow> graph" where
  "kind_remove G u v k =
    G\<lparr>edges := map (\<lambda>(key, d). if edge_is u v key then (key, d\<lparr>kind := kind d - {k}\<rparr>)
                                else (key, d)) (edges G)\<rparr>"

definition remove_edge :: "graph \<Rightarrow> string \<Rightarrow> string \<Rightarrow> graph" where
  "remove_edge G u v = G\<lparr>edges := filter (\<lambda>(key, d). \<not> edge_is u v key) (edges G)\<rparr>"

text \<open>\<^verbatim>\<open>G.nodes[n]["residue_name"]\<close>.\<close>

definition node_residue_name :: "graph \<Rightarrow> string \<Rightarrow> error + string" where
  "node_residue_name G n =
    (case map_of (nodes G) n of
       None \<Rightarrow> Inl KeyError
     | Some None \<Rightarrow> Inl KeyError
     | Some (Some d) \<Rightarrow> Inr (nd_residue_name d))"

definition get_edges_by_bond_type :: "graph \<Rightarrow> string \<Rightarrow> (string \<times> string) list" where
  "get_edges_by_bond_type G bond_type =
    map fst (filter (\<lambda>(k, d). bond_type \<in> kind d) (edges G))"

section \<open>Committing residue pairs\<close>

text \<open>
  The step every detector ends with: add the label to the edge when the pair has one,
  otherwise create the edge with exactly that label.
\<close>

definition commit :: "graph \<Rightarrow> string \<Rightarrow> string \<Rightarrow> string list \<Rightarrow> graph" where
  "commit G i1 i2 ks =
    (if has_edge G i1 i2 then fold (\<lambda>k g. kind_add g i1 i2 k) ks G
     else add_edge G i1 i2 (set ks))"

fun emap :: "('a \<Rightarrow> error + 'b) \<Rightarrow> 'a list \<Rightarrow> error + 'b list" where
  "emap f [] = Inr []"
| "emap f (x # xs) = ebind (f x) (\<lambda>y. ebind (emap f xs) (\<lambda>ys. Inr (y # ys)))"

fun efold :: "('a \<Rightarrow> 'b \<Rightarrow> error + 'b) \<Rightarrow> 'a list \<Rightarrow> 'b \<Rightarrow> error + 'b" where
  "efold f [] s = Inr s"
| "efold f (x # xs) s = ebind (f x s) (\<lambda>s1. efold f xs s1)"

text \<open>\<^verbatim>\<open>dataframe.loc[i]["node_id"]\<close>: the row is found by its label.\<close>

definition loc_node_id :: "dataframe \<Rightarrow> nat \<Rightarrow> error + string" where
  "loc_node_id df i = (case map_of df i of None \<Rightarrow> Inl KeyError | Some r \<Rightarrow> Inr (node_id r))"

fun add_resis_loop :: "graph \<Rightarrow> string list \<Rightarrow> (string \<times> string) list \<Rightarrow> graph" where
  "add_resis_loop G ks [] = G"
| "add_resis_loop G ks ((i1, i2) # ps) =
    add_resis_loop (if i1 \<noteq> i2 then commit G i1 i2 ks else G) ks ps"

text \<open>
  \<^verbatim>\<open>add_interacting_resis_\<close>. The Python set of pairs is enumerated in an order the
  program does not control; the model takes the pairs in order of first occurrence.
\<close>

definition add_interacting_resis ::
  "resi_atoms \<Rightarrow> graph \<Rightarrow> (nat \<times> nat) list \<Rightarrow> dataframe \<Rightarrow> string list \<Rightarrow> error + graph" where
  "add_interacting_resis C G interacting_atoms dataframe ks =
    (if \<not> list_all (\<lambda>k. k \<in> set BOND_TYPES) ks then Inl AssertionError
     else
       ebind (emap (loc_node_id dataframe) (map fst interacting_atoms)) (\<lambda>resi1.
       ebind (emap (loc_node_id dataframe) (map snd interacting_atoms)) (\<lambda>resi2.
       Inr (add_resis_loop G ks (remdups (zip resi1 resi2))))))"

text \<open>The threshold detectors share one shape: distances, atom pairs, commit.\<close>

definition threshold_detector ::
  "resi_atoms \<Rightarrow> graph \<Rightarrow> dataframe \<Rightarrow> real \<Rightarrow> string list \<Rightarrow> error + graph" where
  "threshold_detector C G df angstroms ks =
    ebind (compute_distmat (coords df)) (\<lambda>distmat.
    add_interacting_resis C G (get_interacting_atoms angstroms distmat) df ks)"

definition strs :: "string list \<Rightarrow> cell list" where
  "strs xs = map Str xs"

definition get_rgroup_dataframe :: "resi_atoms \<Rightarrow> dataframe \<Rightarrow> error + dataframe" where
  "get_rgroup_dataframe C dataframe =
    filter_dataframe dataframe ''atom_name'' (strs (BACKBONE_ATOMS C)) False"

definition add_hydrophobic_interactions :: "resi_atoms \<Rightarrow> dataframe \<Rightarrow> graph \<Rightarrow> error + graph" where
  "add_hydrophobic_interactions C rgroup_df G =
    ebind (filter_dataframe rgroup_df ''residue_name'' (strs (HYDROPHOBIC_RESIS C)) True)
      (\<lambda>hydrophobics_df. threshold_detector C G hydrophobics_df 5 [''hydrophobic''])"

definition add_disulfide_interactions :: "resi_atoms \<Rightarrow> dataframe \<Rightarrow> graph \<Rightarrow> error + graph" where
  "add_disulfide_interactions C rgroup_df G =
    ebind (filter_dataframe rgroup_df ''residue_name'' (strs (DISULFIDE_RESIS C)) True)
      (\<lambda>disulfide_df.
    ebind (filter_dataframe disulfide_df ''atom_name'' (strs (DISULFIDE_ATOMS C)) True)
      (\<lambda>disulfide_df. threshold_detector C G disulfide_df 2.2 [''disulfide'']))"

definition HBOND_ATOMS :: "string list" where
  "HBOND_ATOMS = [''ND'', ''NE'', ''NH'', ''NZ'', ''OD1'', ''OD2'', ''OE'', ''OG'', ''OH'',
     ''SD'', ''SG'', ''N'', ''O'']"

definition HBOND_ATOMS_SULPHUR :: "string list" where
  "HBOND_ATOMS_SULPHUR = [''SD'', ''SG'']"

definition add_hydrogen_bond_interactions :: "resi_atoms \<Rightarrow> dataframe \<Rightarrow> graph \<Rightarrow> error + graph" where
  "add_hydrogen_bond_interactions C rgroup_df G =
    ebind (filter_dataframe rgroup_df ''atom_name'' (strs HBOND_ATOMS) True) (\<lambda>hbond_df.
    ebind (threshold_detector C G hbond_df 3.5 [''hbond'']) (\<lambda>G1.
    ebind (filter_dataframe rgroup_df ''atom_name'' (strs HBOND_ATOMS_SULPHUR) True) (\<lambda>hbond_df.
    threshold_detector C G1 hbond_df 4.0 [''hbond''])))"

text \<open>The ionic detector: commit every pair within 6, then check each ionic edge.\<close>

definition is_ionic :: "resi_atoms \<Rightarrow> string \<Rightarrow> string \<Rightarrow> bool" where
  "is_ionic C a1 a2 =
    ((a1 \<in> set (POS_AA C) \<and> a2 \<in> set (NEG_AA C)) \<or> (a2 \<in> set (POS_AA C) \<and> a1 \<in> set (NEG_AA C)))"

definition ionic_check :: "resi_atoms \<Rightarrow> graph \<Rightarrow> string \<times> string \<Rightarrow> error + graph" where
  "ionic_check C G e =
    (case e of (r1, r2) \<Rightarrow>
      ebind (node_residue_name G r1) (\<lambda>a1.
      ebind (node_residue_name G r2) (\<lambda>a2.
        if \<not> is_ionic C a1 a2 then
          (let G1 = kind_remove G r1 r2 ''ionic'' in
           if (case edge_attrs G1 r1 r2 of None \<Rightarrow> False | Some d \<Rightarrow> kind d = {})
           then Inr (remove_edge G1 r1 r2) else Inr G1)
        else Inr G)))"

fun ionic_check_loop :: "resi_atoms \<Rightarrow> graph \<Rightarrow> (string \<times> string) list \<Rightarrow> error + graph" where
  "ionic_check_loop C G [] = Inr G"
| "ionic_check_loop C G (e # es) = ebind (ionic_check C G e) (\<lambda>G1. ionic_check_loop C G1 es)"

definition add_ionic_interactions :: "resi_atoms \<Rightarrow> dataframe \<Rightarrow> graph \<Rightarrow> error + graph" where
  "add_ionic_interactions C rgroup_df G =
    ebind (filter_dataframe rgroup_df ''residue_name'' (strs (IONIC_RESIS C)) True) (\<lambda>ionic_df.
    ebind (threshold_detector C G ionic_df 6 [''ionic'']) (\<lambda>G1.
    ionic_check_loop C G1 (get_edges_by_bond_type G1 ''ionic'')))"

section \<open>The aromatic detector\<close>

definition get_ring_atoms :: "resi_atoms \<Rightarrow> dataframe \<Rightarrow> string \<Rightarrow> error + dataframe" where
  "get_ring_atoms C dataframe aa =
    ebind (filter_dataframe dataframe ''residue_name'' [Str aa] True) (\<lambda>ring_atom_df.
    case map_of (AA_RING_ATOMS C) aa of
      None \<Rightarrow> Inl KeyError
    | Some atoms \<Rightarrow> filter_dataframe ring_atom_df ''atom_name'' (strs atoms) True)"

definition mean :: "real list \<Rightarrow> real" where
  "mean xs = sum_list xs / real (length xs)"

text \<open>
  \<^verbatim>\<open>get_ring_centroids_\<close>: one row per \<^verbatim>\<open>node_id\<close>, in sorted order of the
  identifiers (as \<^verbatim>\<open>groupby\<close> gives them), with the mean of each coordinate over the
  rows of the group. The other columns are dropped, as the pandas versions that average
  the numeric columns do.
\<close>

definition get_ring_centroids :: "dataframe \<Rightarrow> (string \<times> point) list" where
  "get_ring_centroids ring_atom_df =
    map (\<lambda>g. let d = filter (\<lambda>r. node_id r = g) (map snd ring_atom_df)
             in (g, (mean (map x_coord d), mean (map y_coord d), mean (map z_coord d))))
      (sort (remdups (map (\<lambda>(i, r). node_id r) ring_atom_df)))"

fun aromatic_loop :: "resi_atoms \<Rightarrow> graph \<Rightarrow> (string \<times> string) list \<Rightarrow> error + graph" where
  "aromatic_loop C G [] = Inr G"
| "aromatic_loop C G ((n1, n2) # ps) =
    ebind (node_residue_name G n1) (\<lambda>a1.
    if a1 \<notin> set (AROMATIC_RESIS C) then Inl AssertionError else
    ebind (node_residue_name G n2) (\<lambda>a2.
    if a2 \<notin> set (AROMATIC_RESIS C) then Inl AssertionError else
    aromatic_loop C (commit G n1 n2 [''aromatic'']) ps))"

definition aromatic_centroids :: "resi_atoms \<Rightarrow> dataframe \<Rightarrow> error + (string \<times> point) list" where
  "aromatic_centroids C dataframe =
    ebind (emap (\<lambda>resi. ebind (get_ring_atoms C dataframe resi)
                          (\<lambda>resi_rings_df. Inr (get_ring_centroids resi_rings_df)))
             (AROMATIC_RESIS C))
      (\<lambda>dfs. Inr (sort_key fst (concat dfs)))"

text \<open>
  The matrix keeps the distances in the closed interval from 4.5 to 7, puts 0
  elsewhere, and the positive entries are the interacting pairs.
\<close>

definition aromatic_pairs :: "(string \<times> point) list \<Rightarrow> real list list \<Rightarrow> (string \<times> string) list" where
  "aromatic_pairs aromatic_df distmat =
    map (\<lambda>(r, c). (fst (aromatic_df ! r), fst (aromatic_df ! c)))
      (np_where (\<lambda>d. (if 4.5 \<le> d \<and> d \<le> 7 then d else 0) > 0) distmat)"

definition add_aromatic_interactions :: "resi_atoms \<Rightarrow> dataframe \<Rightarrow> graph \<Rightarrow> error + graph" where
  "add_aromatic_interactions C dataframe G =
    ebind (aromatic_centroids C dataframe) (\<lambda>aromatic_df.
    ebind (compute_distmat (map snd aromatic_df)) (\<lambda>distmat.
    aromatic_loop C G (aromatic_pairs aromatic_df distmat)))"

section \<open>The aromatic-sulphur and cation-pi detectors\<close>

text \<open>
  Both loops read the \<^verbatim>\<open>node_id\<close> of each atom of a pair into \<^verbatim>\<open>resi1\<close> and
  \<^verbatim>\<open>resi2\<close> and test these two strings for membership in the residue lists.
\<close>

fun typed_pair_loop ::
  "graph \<Rightarrow> dataframe \<Rightarrow> string list \<Rightarrow> string list \<Rightarrow> string \<Rightarrow> (nat \<times> nat) list \<Rightarrow> error + graph" where
  "typed_pair_loop G df A B k [] = Inr G"
| "typed_pair_loop G df A B k ((a1, a2) # ps) =
    ebind (loc_node_id df a1) (\<lambda>resi1.
    ebind (loc_node_id df a2) (\<lambda>resi2.
      let condition1 = (resi1 \<in> set A \<and> resi2 \<in> set B);
          condition2 = (resi1 \<in> set B \<and> resi2 \<in> set A)
      in typed_pair_loop
           (if (condition1 \<or> condition2) \<and> resi1 \<noteq> resi2 then commit G resi1 resi2 [k] else G)
           df A B k ps))"

definition add_aromatic_sulphur_interactions :: "dataframe \<Rightarrow> graph \<Rightarrow> error + graph" where
  "add_aromatic_sulphur_interactions rgroup_df G =
    (let RESIDUES = [''MET'', ''CYS'', ''PHE'', ''TYR'', ''TRP''];
         SULPHUR_RESIS = [''MET'', ''CYS''];
         AROMATIC_RESIS = [''PHE'', ''TYR'', ''TRP'']
     in
       ebind (filter_dataframe rgroup_df ''residue_name'' (strs RESIDUES) True)
         (\<lambda>aromatic_sulphur_df.
       ebind (compute_distmat (coords aromatic_sulphur_df)) (\<lambda>distmat.
       typed_pair_loop G aromatic_sulphur_df SULPHUR_RESIS AROMATIC_RESIS ''aromatic_sulphur''
         (get_interacting_atoms 5.3 distmat))))"

definition add_cation_pi_interactions :: "resi_atoms \<Rightarrow> dataframe \<Rightarrow> graph \<Rightarrow> error + graph" where
  "add_cation_pi_interactions C rgroup_df G =
    ebind (filter_dataframe rgroup_df ''residue_name'' (strs (CATION_PI_RESIS C)) True)
      (\<lambda>cation_pi_df.
    ebind (compute_distmat (coords cation_pi_df)) (\<lambda>distmat.
    typed_pair_loop G cation_pi_df (CATION_RESIS C) (PI_RESIS C) ''cation_pi''
      (get_interacting_atoms 6 distmat)))"

section \<open>Graph construction\<close>

text \<open>
  \<^verbatim>\<open>compute_chain_pos_aa_mapping\<close>: the groups come in sorted order (the positions
  ordered as signed integers) and a later group overwrites an earlier one at the same
  chain and position. A chain that was never stored reads as the empty dictionary
  (\<^verbatim>\<open>defaultdict(dict)\<close>).
\<close>

definition store_aa ::
  "string \<times> int64 \<times> string \<Rightarrow> (string \<Rightarrow> int64 \<Rightarrow> string option)
    \<Rightarrow> string \<Rightarrow> int64 \<Rightarrow> string option" where
  "store_aa g chain_pos_aa =
    (case g of (chain, pos, aa) \<Rightarrow> chain_pos_aa(chain := (chain_pos_aa chain)(pos \<mapsto> aa)))"

definition compute_chain_pos_aa_mapping :: "dataframe \<Rightarrow> string \<Rightarrow> int64 \<Rightarrow> string option" where
  "compute_chain_pos_aa_mapping pdb_df =
    fold store_aa
      (sort_key (\<lambda>(chain, pos, aa). (chain, sint pos, aa))
         (remdups (map (\<lambda>(i, r). (chain_id r, residue_number r, residue_name r)) pdb_df)))
      (\<lambda>chain. Map.empty)"

definition first_CA :: "atom list \<Rightarrow> error + point" where
  "first_CA d =
    (case filter (\<lambda>r. atom_name r = ''CA'') d of
       [] \<Rightarrow> Inl IndexError
     | r # rs \<Rightarrow> Inr (x_coord r, y_coord r, z_coord r))"

fun add_nodes_loop ::
  "graph \<Rightarrow> atom list \<Rightarrow> (string \<times> string \<times> int64 \<times> string) list \<Rightarrow> error + graph" where
  "add_nodes_loop G atoms [] = Inr G"
| "add_nodes_loop G atoms ((nid, chain, num, name) # gs) =
    ebind (first_CA (filter (\<lambda>r. (node_id r, chain_id r, residue_number r, residue_name r)
                             = (nid, chain, num, name)) atoms)) (\<lambda>p.
    case p of (x, y, z) \<Rightarrow>
      add_nodes_loop
        (add_node G nid \<lparr>nd_chain_id = chain, nd_residue_number = num, nd_residue_name = name,
           nd_x_coord = x, nd_y_coord = y, nd_z_coord = z, nd_features = None\<rparr>)
        atoms gs)"

definition add_nodes :: "dataframe \<Rightarrow> error + graph" where
  "add_nodes pdb_df =
    (let atoms = filter (\<lambda>r. record_name r = ''ATOM'') (map snd pdb_df)
     in add_nodes_loop empty_graph atoms
          (sort_key (\<lambda>(nid, chain, num, name). (nid, chain, sint num, name))
             (remdups (map (\<lambda>r. (node_id r, chain_id r, residue_number r, residue_name r))
                atoms))))"

text \<open>
  One backbone link. The loop runs over the node dictionary, so an \<^verbatim>\<open>add_edge\<close>
  that would create a node makes the iteration raise \<^verbatim>\<open>RuntimeError\<close>. The
  neighbouring positions \<^verbatim>\<open>pos - 1\<close> and \<^verbatim>\<open>pos + 1\<close> are computed on the 64-bit
  integer of the node and wrap around at the ends of its range.
\<close>

definition backbone_link ::
  "resi_atoms \<Rightarrow> (string \<Rightarrow> int64 \<Rightarrow> string option) \<Rightarrow> graph \<Rightarrow> string \<Rightarrow> string \<Rightarrow> int64 \<Rightarrow> string
    \<Rightarrow> error + graph" where
  "backbone_link C chain_pos_aa G n chain pos' aa =
    (case chain_pos_aa chain pos' of
       None \<Rightarrow> Inr G
     | Some other_aa \<Rightarrow>
         let other_node = mk_node_id chain pos' other_aa in
         if aa \<in> set (RESI_NAMES C) \<and> other_aa \<in> set (RESI_NAMES C)
         then (if has_node G other_node then Inr (add_edge G n other_node {''backbone''})
               else Inl RuntimeError)
         else Inr G)"

fun backbone_loop ::
  "resi_atoms \<Rightarrow> (string \<Rightarrow> int64 \<Rightarrow> string option) \<Rightarrow> graph \<Rightarrow> (string \<times> node_data option) list
    \<Rightarrow> error + graph" where
  "backbone_loop C chain_pos_aa G [] = Inr G"
| "backbone_loop C chain_pos_aa G ((n, None) # ns) = Inl KeyError"
| "backbone_loop C chain_pos_aa G ((n, Some d) # ns) =
    (let chain = nd_chain_id d; pos = nd_residue_number d; aa = nd_residue_name d in
     ebind (backbone_link C chain_pos_aa G n chain (pos - 1) aa) (\<lambda>G1.
     ebind (backbone_link C chain_pos_aa G1 n chain (pos + 1) aa) (\<lambda>G2.
     backbone_loop C chain_pos_aa G2 ns)))"

definition backbone_graph ::
  "resi_atoms \<Rightarrow> dataframe \<Rightarrow> (string \<Rightarrow> int64 \<Rightarrow> string option) \<Rightarrow> error + graph" where
  "backbone_graph C pdb_df chain_pos_aa =
    ebind (add_nodes pdb_df) (\<lambda>G. backbone_loop C chain_pos_aa G (nodes G))"

text \<open>
  The list \<^verbatim>\<open>funcs\<close> of detector methods, as tags, and the call \<^verbatim>\<open>func()\<close>.
\<close>

datatype detector =
  Hydrophobic | Disulfide | HydrogenBond | Ionic | Aromatic | AromaticSulphur | CationPi

definition funcs :: "detector list" where
  "funcs = [Hydrophobic, Disulfide, HydrogenBond, Ionic, Aromatic, AromaticSulphur, CationPi]"

fun run_detector :: "resi_atoms \<Rightarrow> dataframe \<Rightarrow> dataframe \<Rightarrow> detector \<Rightarrow> graph \<Rightarrow> error + graph" where
  "run_detector C dataframe rgroup_df Hydrophobic G = add_hydrophobic_interactions C rgroup_df G"
| "run_detector C dataframe rgroup_df Disulfide G = add_disulfide_interactions C rgroup_df G"
| "run_detector C dataframe rgroup_df HydrogenBond G = add_hydrogen_bond_interactions C rgroup_df G"
| "run_detector C dataframe rgroup_df Ionic G = add_ionic_interactions C rgroup_df G"
| "run_detector C dataframe rgroup_df Aromatic G = add_aromatic_interactions C dataframe G"
| "run_detector C dataframe rgroup_df AromaticSulphur G = add_aromatic_sulphur_interactions rgroup_df G"
| "run_detector C dataframe rgroup_df CationPi G = add_cation_pi_interactions C rgroup_df G"

definition run_detectors :: "resi_atoms \<Rightarrow> dataframe \<Rightarrow> dataframe \<Rightarrow> graph \<Rightarrow> error + graph" where
  "run_detectors C dataframe rgroup_df G =
    efold (\<lambda>func G. run_detector C dataframe rgroup_df func G) funcs G"

definition compute_interaction_graph ::
  "resi_atoms \<Rightarrow> dataframe \<Rightarrow> (string \<Rightarrow> int64 \<Rightarrow> string option) \<Rightarrow> error + graph" where
  "compute_interaction_graph C pdb_df chain_pos_aa =
    ebind (get_rgroup_dataframe C pdb_df) (\<lambda>rgroup_df.
    ebind (backbone_graph C pdb_df chain_pos_aa) (\<lambda>G.
    run_detectors C pdb_df rgroup_df G))"

section \<open>Feature encoding\<close>

text \<open>
  \<^verbatim>\<open>LabelBinarizer\<close> of scikit-learn, as far as the program uses it. \<^verbatim>\<open>fit\<close> keeps
  the sorted distinct labels and refuses an empty input. \<^verbatim>\<open>transform\<close> gives one row
  per label: one column per class when there are three classes or more (or three
  distinct labels to transform), a single column otherwise. A label that is not a class
  gives a row of zeros.
\<close>

definition LabelBinarizer_fit :: "string list \<Rightarrow> error + string list" where
  "LabelBinarizer_fit y = (if y = [] then Inl ValueError else Inr (sort (remdups y)))"

definition LabelBinarizer_transform :: "string list \<Rightarrow> string list \<Rightarrow> real list list" where
  "LabelBinarizer_transform classes ys =
    (if 3 \<le> length classes \<or> 3 \<le> length (remdups ys)
     then map (\<lambda>y. map (\<lambda>c. if y = c then 1 else 0) classes) ys
     else if length classes = 1 then map (\<lambda>y. [0]) ys
     else map (\<lambda>y. [if y = last classes then 1 else 0]) ys)"

text \<open>\<^verbatim>\<open>a + b\<close> on one-dimensional arrays, with numpy's broadcasting of length 1.\<close>

definition np_add :: "real list \<Rightarrow> real list \<Rightarrow> error + real list" where
  "np_add a b =
    (if length a = length b then Inr (map (\<lambda>(x, y). x + y) (zip a b))
     else if length b = 1 then Inr (map (\<lambda>x. x + hd b) a)
     else if length a = 1 then Inr (map (\<lambda>y. hd a + y) b)
     else Inl ValueError)"

text \<open>
  \<^verbatim>\<open>encode_bond_features\<close>. The labels of the set are taken in sorted order; the sum
  of the rows does not depend on the order.
\<close>

definition encode_bond_features :: "string set \<Rightarrow> error + real list" where
  "encode_bond_features bond_set =
    ebind (LabelBinarizer_fit BOND_TYPES) (\<lambda>classes.
      let bonds = replicate (length BOND_TYPES) 0 in
      if bond_set \<noteq> {} then
        efold (\<lambda>b bonds. np_add bonds b)
          (LabelBinarizer_transform classes (sorted_list_of_set bond_set)) bonds
      else Inr bonds)"

definition set_edge_features :: "graph \<Rightarrow> string \<Rightarrow> string \<Rightarrow> real list \<Rightarrow> graph" where
  "set_edge_features G u v f =
    G\<lparr>edges := map (\<lambda>(key, d). if edge_is u v key then (key, d\<lparr>features := Some f\<rparr>)
                                else (key, d)) (edges G)\<rparr>"

text \<open>
  \<^verbatim>\<open>compute_edge_features\<close> returns the exception it raised, if any, together with
  the graph as it is afterwards. The argument is the sequence of node names passed as
  \<^verbatim>\<open>edge\<close>.
\<close>

definition compute_edge_features :: "graph \<Rightarrow> string list \<Rightarrow> error option \<times> graph" where
  "compute_edge_features G edge =
    (if length edge \<noteq> 2 then (Some AssertionError, G)
     else
       let u = edge ! 0; v = edge ! 1 in
       if \<not> has_edge G u v then (Some AssertionError, G)
       else
         case edge_attrs G u v of
           None \<Rightarrow> (Some KeyError, G)
         | Some d \<Rightarrow>
             (case encode_bond_features (kind d) of
                Inl e \<Rightarrow> (Some e, G)
              | Inr bond_features \<Rightarrow> (None, set_edge_features G u v bond_features)))"

fun compute_all_edge_features_loop :: "graph \<Rightarrow> (string \<times> string) list \<Rightarrow> error option \<times> graph" where
  "compute_all_edge_features_loop G [] = (None, G)"
| "compute_all_edge_features_loop G ((u, v) # es) =
    (case compute_edge_features G [u, v] of
       (Some e, G1) \<Rightarrow> (Some e, G1)
     | (None, G1) \<Rightarrow> compute_all_edge_features_loop G1 es)"

definition compute_all_edge_features :: "graph \<Rightarrow> error option \<times> graph" where
  "compute_all_edge_features G = compute_all_edge_features_loop G (map fst (edges G))"

definition degree :: "graph \<Rightarrow> string \<Rightarrow> nat" where
  "degree G n =
    sum_list (map (\<lambda>(k, d). (if fst k = n then 1 else 0) + (if snd k = n then 1 else 0)) (edges G))"

definition neighbors :: "graph \<Rightarrow> string \<Rightarrow> string list" where
  "neighbors G n =
    concat (map (\<lambda>(k, d). if fst k = n then [snd k] else if snd k = n then [fst k] else [])
      (edges G))"

definition node_coords :: "graph \<Rightarrow> string \<Rightarrow> error + point" where
  "node_coords G n =
    (case map_of (nodes G) n of
       None \<Rightarrow> Inl KeyError
     | Some None \<Rightarrow> Inl KeyError
     | Some (Some d) \<Rightarrow> Inr (nd_x_coord d, nd_y_coord d, nd_z_coord d))"

definition sum_neighbor_dists :: "graph \<Rightarrow> string \<Rightarrow> error + real" where
  "sum_neighbor_dists G node =
    efold (\<lambda>n2 sum_eucl_dist.
        ebind (node_coords G node) (\<lambda>p. ebind (node_coords G n2) (\<lambda>q.
          Inr (sum_eucl_dist + euclidean p q))))
      (neighbors G node) 0"

definition neighbor_bond_set :: "graph \<Rightarrow> string \<Rightarrow> string set" where
  "neighbor_bond_set G node =
    fold (\<lambda>n2 bond_set. bond_set \<union> (case edge_attrs G node n2 of None \<Rightarrow> {} | Some d \<Rightarrow> kind d))
      (neighbors G node) {}"

definition set_node_features :: "graph \<Rightarrow> string \<Rightarrow> real list \<Rightarrow> graph" where
  "set_node_features G n f =
    G\<lparr>nodes := map (\<lambda>(m, a). if m = n then (m, map_option (\<lambda>d. d\<lparr>nd_features := Some f\<rparr>) a)
                              else (m, a)) (nodes G)\<rparr>"

definition table_lookup :: "(string \<times> real) list \<Rightarrow> string \<Rightarrow> error + real" where
  "table_lookup t aa = (case map_of t aa of None \<Rightarrow> Inl KeyError | Some v \<Rightarrow> Inr v)"

text \<open>
  \<^verbatim>\<open>compute_node_features\<close>. The feature array has one row (\<^verbatim>\<open>reshape(1, n)\<close>);
  the model keeps that row.
\<close>

definition node_feature_vector :: "resi_atoms \<Rightarrow> graph \<Rightarrow> string \<Rightarrow> error + real list" where
  "node_feature_vector C G node =
    (if \<not> has_node G node then Inl AssertionError
     else
       ebind (node_residue_name G node) (\<lambda>aa.
       ebind (LabelBinarizer_fit (RESI_NAMES C)) (\<lambda>classes.
       let aa_enc = hd (LabelBinarizer_transform classes [aa]) in
       ebind (table_lookup (ISOELECTRIC_POINTS_STD C) aa) (\<lambda>pka.
       ebind (table_lookup (MOLECULAR_WEIGHTS_STD C) aa) (\<lambda>mw.
       let deg = [real (degree G node)] in
       ebind (sum_neighbor_dists G node) (\<lambda>sum_eucl_dist.
       ebind (encode_bond_features (neighbor_bond_set G node)) (\<lambda>bonds.
       Inr (aa_enc @ [pka] @ [mw] @ deg @ [sum_eucl_dist] @ bonds))))))))"

definition compute_node_features :: "resi_atoms \<Rightarrow> graph \<Rightarrow> string \<Rightarrow> error + graph" where
  "compute_node_features C G node =
    ebind (node_feature_vector C G node) (\<lambda>features. Inr (set_node_features G node features))"

definition node_features :: "graph \<Rightarrow> string \<Rightarrow> real list option" where
  "node_features G n =
    (case map_of (nodes G) n of Some (Some d) \<Rightarrow> nd_features d | _ \<Rightarrow> None)"

fun compute_all_node_features_loop :: "resi_atoms \<Rightarrow> graph \<Rightarrow> string list \<Rightarrow> error + graph" where
  "compute_all_node_features_loop C G [] = Inr G"
| "compute_all_node_features_loop C G (n # ns) =
    ebind (compute_node_features C G n) (\<lambda>G1. compute_all_node_features_loop C G1 ns)"

definition compute_all_node_features :: "resi_atoms \<Rightarrow> graph \<Rightarrow> error + graph" where
  "compute_all_node_features C G = compute_all_node_features_loop C G (map fst (nodes G))"

text \<open>
  \<^verbatim>\<open>feature_array\<close>: the list of the stored feature values. A node without
  attributes, or an edge whose features were never computed, has no \<^verbatim>\<open>features\<close> key.
\<close>

definition feature_array :: "graph \<Rightarrow> string \<Rightarrow> error + real list option list" where
  "feature_array G knd =
    (if knd \<notin> set [''node'', ''edge''] then Inl AssertionError
     else if knd = ''node'' then
       emap (\<lambda>(n, a). case a of None \<Rightarrow> Inl KeyError | Some d \<Rightarrow> Inr (nd_features d)) (nodes G)
     else
       emap (\<lambda>(k, d). case features d of None \<Rightarrow> Inl KeyError | Some f \<Rightarrow> Inr (Some f)) (edges G))"

section \<open>Observing the graph\<close>

text \<open>
  The \<^verbatim>\<open>kind\<close> set of the edge between two nodes, in either orientation, and
  whether it holds a label.
\<close>

definition edge_kind :: "graph \<Rightarrow> string \<Rightarrow> string \<Rightarrow> string set option" where
  "edge_kind G u v = map_option kind (edge_attrs G u v)"

definition has_label :: "graph \<Rightarrow> string \<Rightarrow> string \<Rightarrow> string \<Rightarrow> bool" where
  "has_label G u v k = (case edge_kind G u v of None \<Rightarrow> False | Some K \<Rightarrow> k \<in> K)"

text \<open>No unordered pair of nodes is stored twice: a networkx graph has one edge per pair.\<close>

fun distinct_pairs :: "(string \<times> string) list \<Rightarrow> bool" where
  "distinct_pairs [] = True"
| "distinct_pairs (k # ks) = (\<not> list_ex (edge_is (fst k) (snd k)) ks \<and> distinct_pairs ks)"

definition wf_edges :: "graph \<Rightarrow> bool" where
  "wf_edges G = distinct_pairs (map fst (edges G))"

text \<open>
  The input contract of the atom table: the derived \<^verbatim>\<open>node_id\<close> names one residue,
  that is one triple of chain, residue number and residue name.
\<close>

definition residue :: "atom \<Rightarrow> string \<times> int64 \<times> string" where
  "residue r = (chain_id r, residue_number r, residue_name r)"

definition unique_ids :: "dataframe \<Rightarrow> bool" where
  "unique_ids pdb_df =
    list_all (\<lambda>r. list_all (\<lambda>s. node_id r = node_id s \<longrightarrow> residue r = residue s)
      (map snd pdb_df)) (map snd pdb_df)"

text \<open>
  The graph states of a run: the graph after backbone construction, and every graph a
  detector returns from such a state. The R-group table is the one the constructor
  stores.
\<close>

inductive reachable :: "resi_atoms \<Rightarrow> dataframe \<Rightarrow> graph \<Rightarrow> bool" for C pdb_df where
  backbone: "backbone_graph C pdb_df (compute_chain_pos_aa_mapping pdb_df) = Inr G
    \<Longrightarrow> reachable C pdb_df G"
| detector: "reachable C pdb_df G \<Longrightarrow> get_rgroup_dataframe C pdb_df = Inr rgroup_df
    \<Longrightarrow> run_detector C pdb_df rgroup_df func G = Inr G' \<Longrightarrow> reachable C pdb_df G'"

text \<open>The invariant of claim C8 on one stored edge, and on the graph.\<close>

definition edge_ok :: "(string \<times> string) \<times> edge_data \<Rightarrow> bool" where
  "edge_ok e = (case e of ((u, v), d) \<Rightarrow> u \<noteq> v \<and> kind d \<noteq> {} \<and> kind d \<subseteq> set BOND_TYPES)"

definition edge_invariant :: "graph \<Rightarrow> bool" where
  "edge_invariant G = list_all edge_ok (edges G)"

section \<open>The pairs a detector commits\<close>

text \<open>
  Every detector first computes a list of residue pairs from the atom table alone and
  then commits them one after the other. The functions of this section compute that
  list; that each detector equals "compute the pairs, commit them" is proved below
  (\<open>run_detector_finish\<close>). They are what "the pairs a detector commits" means in the
  statements about idempotence and about the edges a detector leaves alone.
\<close>

definition commit_list :: "graph \<Rightarrow> string list \<Rightarrow> (string \<times> string) list \<Rightarrow> graph" where
  "commit_list G ks ps = fold (\<lambda>p g. commit g (fst p) (snd p) ks) ps G"

fun label :: "detector \<Rightarrow> string" where
  "label Hydrophobic = ''hydrophobic''"
| "label Disulfide = ''disulfide''"
| "label HydrogenBond = ''hbond''"
| "label Ionic = ''ionic''"
| "label Aromatic = ''aromatic''"
| "label AromaticSulphur = ''aromatic_sulphur''"
| "label CationPi = ''cation_pi''"

definition threshold_pairs :: "dataframe \<Rightarrow> real \<Rightarrow> error + (string \<times> string) list" where
  "threshold_pairs df angstroms =
    ebind (compute_distmat (coords df)) (\<lambda>distmat.
    ebind (emap (loc_node_id df) (map fst (get_interacting_atoms angstroms distmat))) (\<lambda>resi1.
    ebind (emap (loc_node_id df) (map snd (get_interacting_atoms angstroms distmat))) (\<lambda>resi2.
    Inr (filter (\<lambda>(i1, i2). i1 \<noteq> i2) (remdups (zip resi1 resi2))))))"

fun typed_pairs ::
  "dataframe \<Rightarrow> string list \<Rightarrow> string list \<Rightarrow> (nat \<times> nat) list \<Rightarrow> error + (string \<times> string) list" where
  "typed_pairs df A B [] = Inr []"
| "typed_pairs df A B ((a1, a2) # ps) =
    ebind (loc_node_id df a1) (\<lambda>resi1.
    ebind (loc_node_id df a2) (\<lambda>resi2.
    ebind (typed_pairs df A B ps) (\<lambda>qs.
      Inr (if ((resi1 \<in> set A \<and> resi2 \<in> set B) \<or> (resi1 \<in> set B \<and> resi2 \<in> set A))
              \<and> resi1 \<noteq> resi2
           then (resi1, resi2) # qs else qs))))"

fun detector_pairs ::
  "resi_atoms \<Rightarrow> dataframe \<Rightarrow> dataframe \<Rightarrow> detector \<Rightarrow> error + (string \<times> string) list" where
  "detector_pairs C dataframe rgroup_df Hydrophobic =
    ebind (filter_dataframe rgroup_df ''residue_name'' (strs (HYDROPHOBIC_RESIS C)) True)
      (\<lambda>df. threshold_pairs df 5)"
| "detector_pairs C dataframe rgroup_df Disulfide =
    ebind (filter_dataframe rgroup_df ''residue_name'' (strs (DISULFIDE_RESIS C)) True) (\<lambda>df.
    ebind (filter_dataframe df ''atom_name'' (strs (DISULFIDE_ATOMS C)) True) (\<lambda>df.
    threshold_pairs df 2.2))"
| "detector_pairs C dataframe rgroup_df HydrogenBond =
    ebind (filter_dataframe rgroup_df ''atom_name'' (strs HBOND_ATOMS) True) (\<lambda>df1.
    ebind (threshold_pairs df1 3.5) (\<lambda>ps1.
    ebind (filter_dataframe rgroup_df ''atom_name'' (strs HBOND_ATOMS_SULPHUR) True) (\<lambda>df2.
    ebind (threshold_pairs df2 4.0) (\<lambda>ps2. Inr (ps1 @ ps2)))))"
| "detector_pairs C dataframe rgroup_df Ionic =
    ebind (filter_dataframe rgroup_df ''residue_name'' (strs (IONIC_RESIS C)) True)
      (\<lambda>df. threshold_pairs df 6)"
| "detector_pairs C dataframe rgroup_df Aromatic =
    ebind (aromatic_centroids C dataframe) (\<lambda>aromatic_df.
    ebind (compute_distmat (map snd aromatic_df)) (\<lambda>distmat.
    Inr (aromatic_pairs aromatic_df distmat)))"
| "detector_pairs C dataframe rgroup_df AromaticSulphur =
    ebind (filter_dataframe rgroup_df ''residue_name''
             (strs [''MET'', ''CYS'', ''PHE'', ''TYR'', ''TRP'']) True) (\<lambda>df.
    ebind (compute_distmat (coords df)) (\<lambda>distmat.
    typed_pairs df [''MET'', ''CYS''] [''PHE'', ''TYR'', ''TRP'']
      (get_interacting_atoms 5.3 distmat)))"
| "detector_pairs C dataframe rgroup_df CationPi =
    ebind (filter_dataframe rgroup_df ''residue_name'' (strs (CATION_PI_RESIS C)) True) (\<lambda>df.
    ebind (compute_distmat (coords df)) (\<lambda>distmat.
    typed_pairs df (CATION_RESIS C) (PI_RESIS C) (get_interacting_atoms 6 distmat)))"

text \<open>What a detector does with its pairs.\<close>

fun finish :: "resi_atoms \<Rightarrow> detector \<Rightarrow> graph \<Rightarrow> (string \<times> string) list \<Rightarrow> error + graph" where
  "finish C Ionic G ps =
    ionic_check_loop C (commit_list G [''ionic''] ps)
      (get_edges_by_bond_type (commit_list G [''ionic''] ps) ''ionic'')"
| "finish C Aromatic G ps = aromatic_loop C G ps"
| "finish C func G ps = Inr (commit_list G [label func] ps)"

text \<open>The labels of the edge between two nodes; none when there is no edge.\<close>

definition labels :: "graph \<Rightarrow> string \<Rightarrow> string \<Rightarrow> string set" where
  "labels G u v = (case edge_kind G u v of None \<Rightarrow> {} | Some K \<Rightarrow> K)"

text \<open>
  The charge condition of the ionic detector on two nodes: both have a residue name,
  one in \<^verbatim>\<open>POS_AA\<close> and the other in \<^verbatim>\<open>NEG_AA\<close>.
\<close>

definition charged_pair :: "resi_atoms \<Rightarrow> graph \<Rightarrow> string \<Rightarrow> string \<Rightarrow> bool" where
  "charged_pair C G u v =
    (case (node_residue_name G u, node_residue_name G v) of
       (Inr a1, Inr a2) \<Rightarrow> is_ionic C a1 a2
     | _ \<Rightarrow> False)"

text \<open>An update of the attributes of the entries that match a pair.\<close>

definition update_pair ::
  "(edge_data \<Rightarrow> edge_data) \<Rightarrow> string \<Rightarrow> string \<Rightarrow> graph \<Rightarrow> graph" where
  "update_pair g u v G =
    G\<lparr>edges := map (\<lambda>(key, d). (key, if edge_is u v key then g d else d)) (edges G)\<rparr>"

definition strip_ionic :: "string set option \<Rightarrow> string set option" where
  "strip_ionic x =
    (case x of None \<Rightarrow> None
     | Some K \<Rightarrow> if K - {''ionic''} = {} then None else Some (K - {''ionic''}))"

definition named :: "graph \<Rightarrow> string \<Rightarrow> bool" where
  "named G n = (\<exists>a. node_residue_name G n = Inr a)"

definition aromatic_node :: "resi_atoms \<Rightarrow> graph \<Rightarrow> string \<Rightarrow> bool" where
  "aromatic_node C G n = (\<exists>a. node_residue_name G n = Inr a \<and> a \<in> set (AROMATIC_RESIS C))"

definition xyz :: "atom \<Rightarrow> point" where
  "xyz r = (x_coord r, y_coord r, z_coord r)"

definition centroid :: "atom list \<Rightarrow> point" where
  "centroid d = (mean (map x_coord d), mean (map y_coord d), mean (map z_coord d))"

definition ring_atoms_of :: "resi_atoms \<Rightarrow> dataframe \<Rightarrow> string \<Rightarrow> string \<Rightarrow> atom list" where
  "ring_atoms_of C dataframe aa g =
    (case map_of (AA_RING_ATOMS C) aa of
       None \<Rightarrow> []
     | Some atoms \<Rightarrow>
         filter (\<lambda>r. residue_name r = aa \<and> atom_name r \<in> set atoms \<and> node_id r = g)
           (map snd dataframe))"

definition residues :: "dataframe \<Rightarrow> (string \<times> int64 \<times> string) set" where
  "residues pdb_df = residue ` set (map snd pdb_df)"

definition atom_residues :: "dataframe \<Rightarrow> (string \<times> int64 \<times> string) set" where
  "atom_residues pdb_df = residue ` {r \<in> set (map snd pdb_df). record_name r = ''ATOM''}"

text \<open>
  Two node identifiers name residues of the table at positions \<open>p\<close> and \<open>p + 1\<close> of one
  chain, both in \<^verbatim>\<open>RESI_NAMES\<close>. The positions are 64-bit integers and so is the sum:
  the position after \<open>2\<^sup>6\<^sup>3 - 1\<close> is \<open>- 2\<^sup>6\<^sup>3\<close>.
\<close>

definition seq_adjacent :: "resi_atoms \<Rightarrow> dataframe \<Rightarrow> string \<Rightarrow> string \<Rightarrow> bool" where
  "seq_adjacent C pdb_df a b =
    (\<exists>c p x y. (c, p, x) \<in> residues pdb_df \<and> (c, p + 1, y) \<in> residues pdb_df
       \<and> x \<in> set (RESI_NAMES C) \<and> y \<in> set (RESI_NAMES C)
       \<and> edge_is a b (mk_node_id c p x, mk_node_id c (p + 1) y))"

text \<open>
  Position \<open>q\<close> is the one after position \<open>p\<close> in the sequence; and the two positions
  are the last and the first of the range of the 64-bit integers, which the sum
  \<open>pos + 1\<close> of the program takes for neighbours.
\<close>

definition follows :: "int64 \<Rightarrow> int64 \<Rightarrow> bool" where
  "follows p q \<longleftrightarrow> sint q = sint p + 1"

definition ends_of_range :: "int64 \<Rightarrow> int64 \<Rightarrow> bool" where
  "ends_of_range p q \<longleftrightarrow> sint p = 9223372036854775807 \<and> sint q = - 9223372036854775808"

definition kinds_ok :: "graph \<Rightarrow> bool" where
  "kinds_ok G = (\<forall>a b K. edge_kind G a b = Some K \<longrightarrow> a \<noteq> b \<and> K \<noteq> {} \<and> K \<subseteq> set BOND_TYPES)"

section \<open>A small structure for concrete runs\<close>

text \<open>
  Example values for the tables of \<^verbatim>\<open>resi_atoms\<close> and a chain of six residues, two
  atoms or three each, laid out so that every detector has atoms to look at. The
  residue lists are the ones the specification and the docstrings of \<^verbatim>\<open>pin.py\<close>
  name; the alphabet and the two feature tables are cut down to the residues used.
\<close>

definition example_resi_atoms :: resi_atoms where
  "example_resi_atoms = \<lparr>
     AA_RING_ATOMS = [(''PHE'', [''CG'', ''CD'', ''CE'', ''CZ'']),
                      (''TRP'', [''CD'', ''CE'', ''CH'', ''CZ'']),
                      (''HIS'', [''CG'', ''CD'', ''ND'', ''NE'', ''CE'']),
                      (''TYR'', [''CG'', ''CD'', ''CE'', ''CZ''])],
     AROMATIC_RESIS = [''PHE'', ''TRP'', ''HIS'', ''TYR''],
     BACKBONE_ATOMS = [''N'', ''CA'', ''C'', ''O''],
     CATION_PI_RESIS = [''LYS'', ''ARG'', ''PHE'', ''TYR'', ''TRP''],
     CATION_RESIS = [''LYS'', ''ARG''],
     DISULFIDE_ATOMS = [''SG''],
     DISULFIDE_RESIS = [''CYS''],
     HYDROPHOBIC_RESIS = [''ALA'', ''VAL'', ''LEU'', ''ILE'', ''MET'', ''PHE'', ''TRP'', ''PRO'',
                          ''TYR''],
     IONIC_RESIS = [''ARG'', ''LYS'', ''HIS'', ''ASP'', ''GLU''],
     ISOELECTRIC_POINTS_STD = [(''ARG'', 1), (''ASP'', 0), (''LYS'', 0.9), (''CYS'', 0.3),
                               (''PHE'', 0.4), (''TYR'', 0.45)],
     MOLECULAR_WEIGHTS_STD = [(''ARG'', 0.8), (''ASP'', 0.5), (''LYS'', 0.6), (''CYS'', 0.4),
                              (''PHE'', 0.7), (''TYR'', 0.9)],
     NEG_AA = [''GLU'', ''ASP''],
     PI_RESIS = [''PHE'', ''TYR'', ''TRP''],
     POS_AA = [''HIS'', ''LYS'', ''ARG''],
     RESI_NAMES = [''ARG'', ''ASP'', ''LYS'', ''CYS'', ''PHE'', ''TYR'']\<rparr>"

definition atm :: "string \<Rightarrow> string \<Rightarrow> string \<Rightarrow> int64 \<Rightarrow> real \<Rightarrow> real \<Rightarrow> real \<Rightarrow> atom" where
  "atm a res chain num x y z =
    \<lparr>record_name = ''ATOM'', atom_name = a, residue_name = res, chain_id = chain,
     residue_number = num, x_coord = x, y_coord = y, z_coord = z\<rparr>"

definition example_pdb :: dataframe where
  "example_pdb = zip [0..<14]
    [atm ''CA'' ''ARG'' ''A'' 1 0 0 0, atm ''NH1'' ''ARG'' ''A'' 1 0 2 0,
     atm ''CA'' ''ASP'' ''A'' 2 3 0 0, atm ''OD1'' ''ASP'' ''A'' 2 3 2 0,
     atm ''CA'' ''LYS'' ''A'' 3 6 0 0, atm ''NZ'' ''LYS'' ''A'' 3 6 2 0,
     atm ''CA'' ''CYS'' ''A'' 4 9 0 0, atm ''SG'' ''CYS'' ''A'' 4 9 2 0,
     atm ''CA'' ''PHE'' ''A'' 5 12 0 0, atm ''CG'' ''PHE'' ''A'' 5 12 2 0,
     atm ''CZ'' ''PHE'' ''A'' 5 12 4 0,
     atm ''CA'' ''TYR'' ''A'' 6 15 0 0, atm ''CG'' ''TYR'' ''A'' 6 15 5 0,
     atm ''CZ'' ''TYR'' ''A'' 6 15 9 0]"

text \<open>The R-group atoms of the example: everything but the \<^verbatim>\<open>CA\<close> atoms.\<close>

definition example_rgroup :: dataframe where
  "example_rgroup = zip [0..<8]
    [atm ''NH1'' ''ARG'' ''A'' 1 0 2 0,
     atm ''OD1'' ''ASP'' ''A'' 2 3 2 0,
     atm ''NZ'' ''LYS'' ''A'' 3 6 2 0,
     atm ''SG'' ''CYS'' ''A'' 4 9 2 0,
     atm ''CG'' ''PHE'' ''A'' 5 12 2 0, atm ''CZ'' ''PHE'' ''A'' 5 12 4 0,
     atm ''CG'' ''TYR'' ''A'' 6 15 5 0, atm ''CZ'' ''TYR'' ''A'' 6 15 9 0]"

text \<open>The graph of the example after backbone construction.\<close>

definition res_node :: "string \<Rightarrow> int64 \<Rightarrow> string \<Rightarrow> real \<Rightarrow> node_data" where
  "res_node chain num name x =
    \<lparr>nd_chain_id = chain, nd_residue_number = num, nd_residue_name = name,
     nd_x_coord = x, nd_y_coord = 0, nd_z_coord = 0, nd_features = None\<rparr>"

definition link :: "string \<Rightarrow> string \<Rightarrow> string set \<Rightarrow> (string \<times> string) \<times> edge_data" where
  "link u v ks = ((u, v), \<lparr>kind = ks, features = None\<rparr>)"

definition example_backbone :: graph where
  "example_backbone =
    \<lparr>nodes = [(''A1ARG'', Some (res_node ''A'' 1 ''ARG'' 0)),
              (''A2ASP'', Some (res_node ''A'' 2 ''ASP'' 3)),
              (''A3LYS'', Some (res_node ''A'' 3 ''LYS'' 6)),
              (''A4CYS'', Some (res_node ''A'' 4 ''CYS'' 9)),
              (''A5PHE'', Some (res_node ''A'' 5 ''PHE'' 12)),
              (''A6TYR'', Some (res_node ''A'' 6 ''TYR'' 15))],
     edges = [link ''A1ARG'' ''A2ASP'' {''backbone''},
              link ''A2ASP'' ''A3LYS'' {''backbone''},
              link ''A3LYS'' ''A4CYS'' {''backbone''},
              link ''A4CYS'' ''A5PHE'' {''backbone''},
              link ''A5PHE'' ''A6TYR'' {''backbone''}]\<rparr>"

text \<open>The width of a node feature vector that claim C6 states.\<close>

definition feature_width :: "resi_atoms \<Rightarrow> nat" where
  "feature_width C = card (set (RESI_NAMES C)) + card (set BOND_TYPES) + 4"

definition example_ionic :: graph where
  "example_ionic = example_backbone
    \<lparr>edges := [link ''A1ARG'' ''A2ASP'' {''ionic'', ''backbone''},
               link ''A2ASP'' ''A3LYS'' {''ionic'', ''backbone''},
               link ''A3LYS'' ''A4CYS'' {''backbone''},
               link ''A4CYS'' ''A5PHE'' {''backbone''},
               link ''A5PHE'' ''A6TYR'' {''backbone''}]\<rparr>"

text \<open>
  A chain with two residue types at each of its two positions, as a structure with
  point heterogeneity has: \<^verbatim>\<open>ALA\<close> and \<^verbatim>\<open>VAL\<close> at position 1, \<^verbatim>\<open>GLY\<close> and \<^verbatim>\<open>SER\<close> at
  position 2, one \<^verbatim>\<open>CA\<close> atom each.
\<close>

definition example_two_types :: dataframe where
  "example_two_types = zip [0..<4]
    [atm ''CA'' ''ALA'' ''A'' 1 0 0 0, atm ''CA'' ''VAL'' ''A'' 1 1 0 0,
     atm ''CA'' ''GLY'' ''A'' 2 3 0 0, atm ''CA'' ''SER'' ''A'' 2 4 0 0]"

definition example_alphabet :: resi_atoms where
  "example_alphabet = example_resi_atoms\<lparr>RESI_NAMES := [''ALA'', ''GLY'', ''SER'', ''VAL'']\<rparr>"

definition example_two_types_backbone :: graph where
  "example_two_types_backbone =
    \<lparr>nodes = [(''A1ALA'', Some (res_node ''A'' 1 ''ALA'' 0)),
              (''A1VAL'', Some (res_node ''A'' 1 ''VAL'' 1)),
              (''A2GLY'', Some (res_node ''A'' 2 ''GLY'' 3)),
              (''A2SER'', Some (res_node ''A'' 2 ''SER'' 4))],
     edges = [link ''A1ALA'' ''A2SER'' {''backbone''},
              link ''A1VAL'' ''A2SER'' {''backbone''},
              link ''A2GLY'' ''A1VAL'' {''backbone''}]\<rparr>"

text \<open>
  A chain whose two residues are at the ends of the range of the 64-bit integers:
  \<^verbatim>\<open>ALA\<close> at position \<open>2\<^sup>6\<^sup>3 - 1\<close> and \<^verbatim>\<open>GLY\<close> at position \<open>- 2\<^sup>6\<^sup>3\<close>.
\<close>

definition example_wrap :: dataframe where
  "example_wrap = zip [0..<2]
    [atm ''CA'' ''ALA'' ''A'' 9223372036854775807 0 0 0,
     atm ''CA'' ''GLY'' ''A'' (- 9223372036854775808) 3 0 0]"

definition example_wrap_backbone :: graph where
  "example_wrap_backbone =
    \<lparr>nodes = [(''A-9223372036854775808GLY'',
               Some (res_node ''A'' (- 9223372036854775808) ''GLY'' 3)),
              (''A9223372036854775807ALA'',
               Some (res_node ''A'' 9223372036854775807 ''ALA'' 0))],
     edges = [link ''A-9223372036854775808GLY'' ''A9223372036854775807ALA'' {''backbone''}]\<rparr>"

section \<open>Properties of the filter\<close>

lemma py_eq_Str: "py_eq (Str s) w \<longleftrightarrow> w = Str s"
  by (cases w) auto

lemma isin_Str [simp]: "isin (Str s) vs \<longleftrightarrow> Str s \<in> set vs"
  by (auto simp: isin_def list_ex_iff py_eq_Str)

lemma bit_length_le: "n < 2 ^ k \<Longrightarrow> bit_length n \<le> k"
proof (induction k arbitrary: n)
  case 0
  then show ?case by (simp add: bit_length.simps)
next
  case (Suc k)
  show ?case
  proof (cases "n = 0")
    case True
    then show ?thesis by (simp add: bit_length.simps)
  next
    case False
    have "n div 2 < 2 ^ k"
      using Suc.prems by auto
    then have "bit_length (n div 2) \<le> k"
      by (rule Suc.IH)
    then show ?thesis
      using False by (subst bit_length.simps) simp
  qed
qed

text \<open>An integer of at most 53 bits is a double.\<close>

lemma to_double_exact:
  assumes "\<bar>i\<bar> < 2 ^ 53"
  shows "to_double i = real_of_int i"
proof -
  have "nat \<bar>i\<bar> < 2 ^ 53"
    using assms by (simp add: nat_less_iff)
  then have "bit_length (nat \<bar>i\<bar>) - 53 = 0"
    using bit_length_le [of "nat \<bar>i\<bar>" 53] by simp
  then have "to_double i = real_of_int (sgn i) * real (nat \<bar>i\<bar>)"
    by (simp add: to_double_def Let_def)
  also have "\<dots> = real_of_int (sgn i * \<bar>i\<bar>)"
    by simp
  also have "\<dots> = real_of_int i"
    by (simp add: mult_sgn_abs)
  finally show ?thesis .
qed

text \<open>Beyond 53 bits the conversion rounds: \<open>2\<^sup>5\<^sup>3 + 1\<close> becomes \<open>2\<^sup>5\<^sup>3\<close>.\<close>

lemma bit_length_example: "bit_length 9007199254740993 = 54"
  by (simp add: bit_length.simps)

lemma to_double_rounds: "to_double 9007199254740993 = 9007199254740992"
  by (simp add: to_double_def bit_length_example Let_def)

lemma isin_by_value: "isin (Num 1) [Flt 1]" "isin (Flt 1) [Num 1]" "\<not> isin (Str ''1'') [Num 1]"
  by (simp_all add: isin_def to_double_exact)

lemma isin_rounds:
  "isin (Num 9007199254740993) [Flt 9007199254740992]"
  "\<not> isin (Num 9007199254740993) [Flt 9007199254740992, Str ''A'']"
  by (simp_all add: isin_def to_double_rounds)



lemma map_snd_reset_index: "map snd (reset_index df) = map snd df"
  by (simp add: reset_index_def)

lemma map_fst_reset_index: "map fst (reset_index df) = [0..<length df]"
  by (simp add: reset_index_def)

lemma length_reset_index [simp]: "length (reset_index df) = length df"
  by (simp add: reset_index_def)

lemma filter_dataframe_rows:
  assumes "filter_dataframe df c vs b = Inr out"
  shows "map snd out = filter (row_selected c vs b) (map snd df)"
    and "map fst out = [0..<length out]"
proof -
  from assms have out: "out = reset_index (filter (\<lambda>(i, r). row_selected c vs b r) df)"
    by (simp add: filter_dataframe_def split: if_splits)
  have "map snd (filter (\<lambda>(i, r). row_selected c vs b r) df)
      = filter (row_selected c vs b) (map snd df)"
    by (induction df) auto
  then show "map snd out = filter (row_selected c vs b) (map snd df)"
    by (simp add: out map_snd_reset_index)
  show "map fst out = [0..<length out]"
    by (simp add: out map_fst_reset_index)
qed




section \<open>Evaluating the example\<close>

lemma ebind_Inr: "ebind (Inr x) f = f x"
  by (simp add: ebind_def)

lemma ebind_Inl: "ebind (Inl e) f = Inl e"
  by (simp add: ebind_def)

lemma ebind_weak_cong: "m = m' \<Longrightarrow> ebind m f = ebind m' f"
  by simp

lemma sqrt_le_iff: "0 \<le> r \<Longrightarrow> sqrt s \<le> r \<longleftrightarrow> s \<le> r\<^sup>2"
  by (metis real_sqrt_le_iff real_sqrt_abs abs_of_nonneg)

lemma sqrt_mult_le_iff: "0 \<le> r \<Longrightarrow> 0 \<le> c \<Longrightarrow> sqrt s * c \<le> r \<longleftrightarrow> s * c\<^sup>2 \<le> r\<^sup>2"
  by (metis sqrt_le_iff real_sqrt_mult real_sqrt_abs abs_of_nonneg)

lemma le_sqrt_iff: "0 \<le> r \<Longrightarrow> r \<le> sqrt s \<longleftrightarrow> r\<^sup>2 \<le> s"
  by (metis real_sqrt_le_iff real_sqrt_abs abs_of_nonneg)

lemma le_sqrt_mult_iff: "0 \<le> r \<Longrightarrow> 0 \<le> c \<Longrightarrow> r \<le> sqrt s * c \<longleftrightarrow> r\<^sup>2 \<le> s * c\<^sup>2"
  by (metis le_sqrt_iff real_sqrt_mult real_sqrt_abs abs_of_nonneg)

lemmas table_eval = filter_dataframe_def has_column_def row_selected_def column_def atm_def
  strs_def reset_index_def upt_conv_Cons ebind_Inr ebind_Inl example_resi_atoms_def

lemmas id_eval = node_id_def mk_node_id_def str_int_def str_nat.simps digit_char_def

lemmas dist_eval = compute_distmat_def coords_def euclidean_def get_interacting_atoms_def
  np_where_def sqrt_le_iff sqrt_mult_le_iff le_sqrt_iff le_sqrt_mult_iff

lemmas graph_eval = empty_graph_def has_node_def has_edge_def edge_is_def add_node_def add_edge_def
  touch_node_def kind_add_def kind_remove_def remove_edge_def edge_attrs_def node_residue_name_def
  commit_def get_edges_by_bond_type_def res_node_def link_def

lemma example_backbone_eq:
  "backbone_graph example_resi_atoms example_pdb (compute_chain_pos_aa_mapping example_pdb)
    = Inr example_backbone"
  by (simp add: backbone_graph_def compute_chain_pos_aa_mapping_def store_aa_def add_nodes_def
      example_pdb_def
      atm_def upt_conv_Cons id_eval first_CA_def graph_eval ebind_Inr ebind_Inl backbone_link_def
      example_resi_atoms_def example_backbone_def Let_def cong: ebind_weak_cong)

lemma example_rgroup_eq: "get_rgroup_dataframe example_resi_atoms example_pdb = Inr example_rgroup"
  by (simp add: get_rgroup_dataframe_def example_pdb_def example_rgroup_def table_eval)

section \<open>The aromatic-sulphur and cation-pi detectors compare node identifiers with residue names\<close>

text \<open>
  Claim C1, at a concrete input. In the example the sulphur atom \<^verbatim>\<open>SG\<close> of residue
  \<^verbatim>\<open>A4CYS\<close> and the ring atom \<^verbatim>\<open>CG\<close> of residue \<^verbatim>\<open>A5PHE\<close> are R-group atoms
  3 apart, so the claim asks for an edge labelled \<^verbatim>\<open>aromatic_sulphur\<close> between the two
  residues. The detector returns the graph it was given, whatever that graph is: the
  strings it tests against the residue lists are the node identifiers.
\<close>

theorem aromatic_sulphur_misses_pair:
  "get_rgroup_dataframe example_resi_atoms example_pdb = Inr example_rgroup
   \<and> map_of example_rgroup 3 = Some (atm ''SG'' ''CYS'' ''A'' 4 9 2 0)
   \<and> map_of example_rgroup 4 = Some (atm ''CG'' ''PHE'' ''A'' 5 12 2 0)
   \<and> node_id (atm ''SG'' ''CYS'' ''A'' 4 9 2 0) = ''A4CYS''
   \<and> node_id (atm ''CG'' ''PHE'' ''A'' 5 12 2 0) = ''A5PHE''
   \<and> euclidean (9, 2, 0) (12, 2, 0) \<le> 5.3
   \<and> add_aromatic_sulphur_interactions example_rgroup G = Inr G
   \<and> \<not> has_label empty_graph ''A4CYS'' ''A5PHE'' ''aromatic_sulphur''"
proof -
  have "add_aromatic_sulphur_interactions example_rgroup G = Inr G"
    by (simp add: add_aromatic_sulphur_interactions_def example_rgroup_def table_eval
        dist_eval loc_node_id_def id_eval cong: ebind_weak_cong)
  moreover have "map_of example_rgroup 3 = Some (atm ''SG'' ''CYS'' ''A'' 4 9 2 0)"
    and "map_of example_rgroup 4 = Some (atm ''CG'' ''PHE'' ''A'' 5 12 2 0)"
    by (simp_all add: example_rgroup_def upt_conv_Cons)
  moreover have "node_id (atm ''SG'' ''CYS'' ''A'' 4 9 2 0) = ''A4CYS''"
    and "node_id (atm ''CG'' ''PHE'' ''A'' 5 12 2 0) = ''A5PHE''"
    by (simp_all add: atm_def id_eval)
  moreover have "euclidean (9, 2, 0) (12, 2, 0) \<le> 5.3"
    by (simp add: euclidean_def sqrt_le_iff)
  moreover have "\<not> has_label empty_graph ''A4CYS'' ''A5PHE'' ''aromatic_sulphur''"
    by (simp add: has_label_def edge_kind_def edge_attrs_def empty_graph_def)
  ultimately show ?thesis
    using example_rgroup_eq by simp
qed

text \<open>
  Claim C2, at a concrete input. With the cation residues \<^verbatim>\<open>LYS\<close>, \<^verbatim>\<open>ARG\<close> and the
  \<open>\<pi>\<close> residues \<^verbatim>\<open>PHE\<close>, \<^verbatim>\<open>TYR\<close>, \<^verbatim>\<open>TRP\<close>, the atom \<^verbatim>\<open>NZ\<close> of \<^verbatim>\<open>A3LYS\<close> and the
  atom \<^verbatim>\<open>CG\<close> of \<^verbatim>\<open>A5PHE\<close> are R-group atoms exactly 6 apart, so the claim asks for
  an edge labelled \<^verbatim>\<open>cation_pi\<close>. The detector returns the graph it was given.
\<close>

theorem cation_pi_misses_pair:
  "get_rgroup_dataframe example_resi_atoms example_pdb = Inr example_rgroup
   \<and> CATION_RESIS example_resi_atoms = [''LYS'', ''ARG'']
   \<and> PI_RESIS example_resi_atoms = [''PHE'', ''TYR'', ''TRP'']
   \<and> map_of example_rgroup 2 = Some (atm ''NZ'' ''LYS'' ''A'' 3 6 2 0)
   \<and> map_of example_rgroup 4 = Some (atm ''CG'' ''PHE'' ''A'' 5 12 2 0)
   \<and> node_id (atm ''NZ'' ''LYS'' ''A'' 3 6 2 0) = ''A3LYS''
   \<and> node_id (atm ''CG'' ''PHE'' ''A'' 5 12 2 0) = ''A5PHE''
   \<and> euclidean (6, 2, 0) (12, 2, 0) \<le> 6
   \<and> add_cation_pi_interactions example_resi_atoms example_rgroup G = Inr G
   \<and> \<not> has_label empty_graph ''A3LYS'' ''A5PHE'' ''cation_pi''"
proof -
  have "add_cation_pi_interactions example_resi_atoms example_rgroup G = Inr G"
    by (simp add: add_cation_pi_interactions_def example_rgroup_def table_eval
        dist_eval loc_node_id_def id_eval cong: ebind_weak_cong)
  moreover have "map_of example_rgroup 2 = Some (atm ''NZ'' ''LYS'' ''A'' 3 6 2 0)"
    and "map_of example_rgroup 4 = Some (atm ''CG'' ''PHE'' ''A'' 5 12 2 0)"
    by (simp_all add: example_rgroup_def upt_conv_Cons)
  moreover have "node_id (atm ''NZ'' ''LYS'' ''A'' 3 6 2 0) = ''A3LYS''"
    and "node_id (atm ''CG'' ''PHE'' ''A'' 5 12 2 0) = ''A5PHE''"
    by (simp_all add: atm_def id_eval)
  moreover have "euclidean (6, 2, 0) (12, 2, 0) \<le> 6"
    by (simp add: euclidean_def sqrt_le_iff)
  moreover have "\<not> has_label empty_graph ''A3LYS'' ''A5PHE'' ''cation_pi''"
    by (simp add: has_label_def edge_kind_def edge_attrs_def empty_graph_def)
  moreover have "CATION_RESIS example_resi_atoms = [''LYS'', ''ARG'']"
    and "PI_RESIS example_resi_atoms = [''PHE'', ''TYR'', ''TRP'']"
    by (simp_all add: example_resi_atoms_def)
  ultimately show ?thesis
    using example_rgroup_eq by simp
qed

section \<open>Feature vectors\<close>

lemma BOND_TYPES_classes:
  "\<exists>classes. LabelBinarizer_fit BOND_TYPES = Inr classes \<and> length classes = length BOND_TYPES
      \<and> 3 \<le> length classes"
  by (simp add: LabelBinarizer_fit_def BOND_TYPES_def)

lemma length_transform_rows:
  assumes "3 \<le> length classes" and "b \<in> set (LabelBinarizer_transform classes ys)"
  shows "length b = length classes"
  using assms by (auto simp: LabelBinarizer_transform_def)

lemma efold_np_add_length:
  assumes "\<forall>b \<in> set rows. length b = n" and "length bonds = n"
  shows "\<exists>v. efold (\<lambda>b bonds. np_add bonds b) rows bonds = Inr v \<and> length v = n"
  using assms
proof (induction rows arbitrary: bonds)
  case Nil
  then show ?case by simp
next
  case (Cons b rows)
  then have "\<exists>w. np_add bonds b = Inr w \<and> length w = n"
    by (simp add: np_add_def)
  then obtain w where w: "np_add bonds b = Inr w" "length w = n" by blast
  with Cons show ?case by (simp add: ebind_Inr)
qed

lemma encode_bond_features_length:
  "\<exists>v. encode_bond_features bond_set = Inr v \<and> length v = length BOND_TYPES"
proof -
  obtain classes where c: "LabelBinarizer_fit BOND_TYPES = Inr classes"
    "length classes = length BOND_TYPES" "3 \<le> length classes"
    using BOND_TYPES_classes by blast
  have rows: "\<forall>b \<in> set (LabelBinarizer_transform classes (sorted_list_of_set bond_set)).
      length b = length BOND_TYPES"
    using length_transform_rows [OF c(3)] c(2) by auto
  show ?thesis
    using efold_np_add_length [OF rows, of "replicate (length BOND_TYPES) 0"] c(1)
    by (auto simp: encode_bond_features_def ebind_Inr Let_def)
qed

lemma has_edge_edge_attrs: "has_edge G u v \<longleftrightarrow> edge_attrs G u v \<noteq> None"
  by (auto simp: has_edge_def edge_attrs_def list_ex_iff find_None_iff)

text \<open>
  Claim C9. \<^verbatim>\<open>compute_edge_features\<close> raises \<^verbatim>\<open>AssertionError\<close> and leaves the graph as
  it was whenever its argument is not a sequence of two node names with an edge between
  them; whenever it is, the call returns normally and stores a feature vector over the
  bond vocabulary on that edge. \<^verbatim>\<open>feature_array\<close> raises \<^verbatim>\<open>AssertionError\<close> for every
  \<^verbatim>\<open>kind\<close> other than \<^verbatim>\<open>"node"\<close> and \<^verbatim>\<open>"edge"\<close>; no value is returned in its place.
\<close>

theorem feature_queries_raise:
  "(\<not> (length edge = 2 \<and> has_edge G (edge ! 0) (edge ! 1))
      \<longrightarrow> compute_edge_features G edge = (Some AssertionError, G))
   \<and> (length edge = 2 \<and> has_edge G (edge ! 0) (edge ! 1)
      \<longrightarrow> (\<exists>f. length f = length BOND_TYPES
            \<and> compute_edge_features G edge = (None, set_edge_features G (edge ! 0) (edge ! 1) f)))
   \<and> (knd \<noteq> ''node'' \<and> knd \<noteq> ''edge'' \<longrightarrow> feature_array H knd = Inl AssertionError)"
proof (intro conjI impI)
  assume "\<not> (length edge = 2 \<and> has_edge G (edge ! 0) (edge ! 1))"
  then show "compute_edge_features G edge = (Some AssertionError, G)"
    by (auto simp: compute_edge_features_def Let_def)
next
  assume a: "length edge = 2 \<and> has_edge G (edge ! 0) (edge ! 1)"
  then obtain d where d: "edge_attrs G (edge ! 0) (edge ! 1) = Some d"
    using has_edge_edge_attrs by auto
  obtain f where f: "encode_bond_features (kind d) = Inr f" "length f = length BOND_TYPES"
    using encode_bond_features_length by blast
  show "\<exists>f. length f = length BOND_TYPES
      \<and> compute_edge_features G edge = (None, set_edge_features G (edge ! 0) (edge ! 1) f)"
    using a d f by (auto simp: compute_edge_features_def Let_def)
next
  assume "knd \<noteq> ''node'' \<and> knd \<noteq> ''edge''"
  then show "feature_array H knd = Inl AssertionError"
    by (simp add: feature_array_def)
qed

theorem feature_queries_raise_witness:
  "\<not> (length [''A1ARG''] = 2 \<and> has_edge example_backbone ([''A1ARG''] ! 0) ([''A1ARG''] ! 1))
   \<and> compute_edge_features example_backbone [''A1ARG''] = (Some AssertionError, example_backbone)
   \<and> \<not> has_edge example_backbone ''A1ARG'' ''A3LYS''
   \<and> compute_edge_features example_backbone [''A1ARG'', ''A3LYS'']
        = (Some AssertionError, example_backbone)
   \<and> has_edge example_backbone ''A2ASP'' ''A1ARG''
   \<and> (\<exists>f. length f = length BOND_TYPES
        \<and> compute_edge_features example_backbone [''A2ASP'', ''A1ARG'']
            = (None, set_edge_features example_backbone ''A2ASP'' ''A1ARG'' f))
   \<and> ''atom_name'' \<noteq> ''node'' \<and> ''atom_name'' \<noteq> ''edge''
   \<and> feature_array example_backbone ''atom_name'' = Inl AssertionError"
proof -
  have no: "\<not> has_edge example_backbone ''A1ARG'' ''A3LYS''"
    by (simp add: example_backbone_def graph_eval)
  have yes: "has_edge example_backbone ''A2ASP'' ''A1ARG''"
    by (simp add: example_backbone_def graph_eval)
  show ?thesis
    using no yes
      feature_queries_raise [of "[''A1ARG'']" example_backbone "''atom_name''" example_backbone]
      feature_queries_raise [of "[''A1ARG'', ''A3LYS'']" example_backbone "''atom_name''"
        example_backbone]
      feature_queries_raise [of "[''A2ASP'', ''A1ARG'']" example_backbone "''atom_name''"
        example_backbone]
    by simp
qed

lemma card_BOND_TYPES: "card (set BOND_TYPES) = length BOND_TYPES"
  by (simp add: BOND_TYPES_def)

lemma fit_length:
  assumes "LabelBinarizer_fit y = Inr classes"
  shows "length classes = card (set y)"
  using assms by (auto simp: LabelBinarizer_fit_def length_remdups_card_conv split: if_splits)

lemma aa_enc_length:
  assumes "3 \<le> length classes"
  shows "length (hd (LabelBinarizer_transform classes [aa])) = length classes"
  using assms by (simp add: LabelBinarizer_transform_def)

lemma ebind_eq_Inr: "ebind m f = Inr y \<longleftrightarrow> (\<exists>x. m = Inr x \<and> f x = Inr y)"
  by (cases m) (simp_all add: ebind_def)

lemma node_feature_vector_length:
  assumes "node_feature_vector C G node = Inr f" and "3 \<le> card (set (RESI_NAMES C))"
  shows "length f = feature_width C"
proof -
  from assms(1) obtain aa classes pka mw s bonds where
    fit: "LabelBinarizer_fit (RESI_NAMES C) = Inr classes" and
    bonds: "encode_bond_features (neighbor_bond_set G node) = Inr bonds" and
    f: "f = hd (LabelBinarizer_transform classes [aa]) @ [pka] @ [mw] @ [real (degree G node)] @ [s] @ bonds"
    by (auto simp: node_feature_vector_def ebind_eq_Inr Let_def split: if_splits)
  have "length classes = card (set (RESI_NAMES C))"
    using fit by (rule fit_length)
  moreover have "length bonds = length BOND_TYPES"
    using bonds encode_bond_features_length [of "neighbor_bond_set G node"] by auto
  ultimately show ?thesis
    using assms(2) by (simp add: f aa_enc_length feature_width_def card_BOND_TYPES)
qed

lemma map_of_map_value:
  "map_of (map (\<lambda>(m, a). (m, g m a)) xs) k = map_option (g k) (map_of xs k)"
  by (induction xs) auto

lemma set_node_features_alt:
  "set_node_features G n f =
    G\<lparr>nodes := map (\<lambda>(m, a). (m, if m = n then map_option (\<lambda>d. d\<lparr>nd_features := Some f\<rparr>) a else a))
      (nodes G)\<rparr>"
  unfolding set_node_features_def
  by (rule arg_cong [where f = "\<lambda>x. G\<lparr>nodes := x\<rparr>"]) (rule map_cong, auto)

lemma node_features_set:
  "node_features (set_node_features G n f) m =
    (if m = n then (case map_of (nodes G) n of Some (Some d) \<Rightarrow> Some f | _ \<Rightarrow> None)
     else node_features G m)"
  by (simp add: node_features_def set_node_features_alt map_of_map_value
      split: option.splits)

lemma keys_set_node_features: "map fst (nodes (set_node_features G n f)) = map fst (nodes G)"
  by (simp add: set_node_features_alt o_def case_prod_unfold)

lemma compute_node_features_step:
  assumes "compute_node_features C G n = Inr G1" and "3 \<le> card (set (RESI_NAMES C))"
  shows "\<exists>f. node_features G1 n = Some f \<and> length f = feature_width C"
    and "m \<noteq> n \<Longrightarrow> node_features G1 m = node_features G m"
    and "map fst (nodes G1) = map fst (nodes G)"
proof -
  from assms(1) obtain f where f: "node_feature_vector C G n = Inr f"
    and G1: "G1 = set_node_features G n f"
    by (auto simp: compute_node_features_def ebind_eq_Inr)
  from f obtain aa where "node_residue_name G n = Inr aa"
    by (auto simp: node_feature_vector_def ebind_eq_Inr split: if_splits)
  then obtain d where "map_of (nodes G) n = Some (Some d)"
    by (auto simp: node_residue_name_def split: option.splits)
  then show "\<exists>f. node_features G1 n = Some f \<and> length f = feature_width C"
    using node_feature_vector_length [OF f assms(2)] by (simp add: G1 node_features_set)
  show "m \<noteq> n \<Longrightarrow> node_features G1 m = node_features G m"
    by (simp add: G1 node_features_set)
  show "map fst (nodes G1) = map fst (nodes G)"
    by (simp add: G1 keys_set_node_features)
qed

lemma compute_all_node_features_loop_width:
  assumes "compute_all_node_features_loop C G ns = Inr G'" and "3 \<le> card (set (RESI_NAMES C))"
  shows "map fst (nodes G') = map fst (nodes G)"
    and "(n \<in> set ns \<or> (\<exists>f. node_features G n = Some f \<and> length f = feature_width C))
      \<Longrightarrow> \<exists>f. node_features G' n = Some f \<and> length f = feature_width C"
  using assms(1)
proof (induction ns arbitrary: G)
  case Nil
  {
    case 1
    then show ?case by simp
  next
    case 2
    then show ?case by simp
  }
next
  case (Cons m ns)
  {
    case 1
    from 1 obtain G1 where s: "compute_node_features C G m = Inr G1"
      and r: "compute_all_node_features_loop C G1 ns = Inr G'"
      by (auto simp: ebind_eq_Inr)
    show ?case
      using Cons.IH(1) [OF r] compute_node_features_step(3) [OF s assms(2)] by simp
  next
    case 2
    from 2(2) obtain G1 where s: "compute_node_features C G m = Inr G1"
      and r: "compute_all_node_features_loop C G1 ns = Inr G'"
      by (auto simp: ebind_eq_Inr)
    have "n \<in> set ns \<or> (\<exists>f. node_features G1 n = Some f \<and> length f = feature_width C)"
    proof (cases "n = m")
      case True
      then show ?thesis using compute_node_features_step(1) [OF s assms(2)] by simp
    next
      case False
      then show ?thesis using 2(1) compute_node_features_step(2) [OF s assms(2), of n] by auto
    qed
    then show ?case using Cons.IH(2) [OF _ r] by simp
  }
qed

text \<open>
  Claim C6. After \<^verbatim>\<open>compute_all_node_features\<close> has returned, every node of the graph
  has a feature vector, and its length is the number of letters of the alphabet
  \<^verbatim>\<open>RESI_NAMES\<close> plus the size of the bond vocabulary plus 4 (isoelectric point,
  molecular weight, degree, sum of distances to the neighbours): the same number for
  every node. The alphabet has at least three letters (with one or two, the binarizer
  of scikit-learn produces a single column).
\<close>

theorem node_feature_width:
  assumes "compute_all_node_features C G = Inr G'" and "3 \<le> card (set (RESI_NAMES C))"
    and "has_node G' n"
  shows "\<exists>f. node_features G' n = Some f
    \<and> length f = card (set (RESI_NAMES C)) + card (set BOND_TYPES) + 4"
proof -
  have loop: "compute_all_node_features_loop C G (map fst (nodes G)) = Inr G'"
    using assms(1) by (simp add: compute_all_node_features_def)
  have "n \<in> set (map fst (nodes G))"
    using assms(3) compute_all_node_features_loop_width(1) [OF loop assms(2)]
    by (simp add: has_node_def)
  then show ?thesis
    using compute_all_node_features_loop_width(2) [OF loop assms(2), of n]
    by (simp add: feature_width_def)
qed

theorem node_feature_width_witness:
  "\<exists>G'. compute_all_node_features example_resi_atoms example_backbone = Inr G'
     \<and> 3 \<le> card (set (RESI_NAMES example_resi_atoms))
     \<and> has_node G' ''A3LYS''
     \<and> (\<exists>f. node_features G' ''A3LYS'' = Some f
          \<and> length f = card (set (RESI_NAMES example_resi_atoms)) + card (set BOND_TYPES) + 4)"
proof -
  have "\<exists>G'. compute_all_node_features example_resi_atoms example_backbone = Inr G'
      \<and> has_node G' ''A3LYS''"
    by (simp add: compute_all_node_features_def compute_node_features_def
        node_feature_vector_def LabelBinarizer_fit_def LabelBinarizer_transform_def
        table_lookup_def degree_def neighbors_def sum_neighbor_dists_def node_coords_def
        neighbor_bond_set_def encode_bond_features_def np_add_def set_node_features_def
        BOND_TYPES_def euclidean_def graph_eval example_backbone_def example_resi_atoms_def
        ebind_Inr ebind_Inl Let_def cong: ebind_weak_cong)
  then obtain G' where run: "compute_all_node_features example_resi_atoms example_backbone = Inr G'"
    and n: "has_node G' ''A3LYS''" by blast
  have three: "3 \<le> card (set (RESI_NAMES example_resi_atoms))"
    by (simp add: example_resi_atoms_def)
  show ?thesis
    using run three n node_feature_width [OF run three n] by blast
qed

section \<open>Looking up edges\<close>

lemma edge_is_sym: "edge_is u v k = edge_is v u k"
  by (auto simp: edge_is_def)

lemma edge_is_pair: "edge_is a b (u, v) \<longleftrightarrow> (a = u \<and> b = v) \<or> (a = v \<and> b = u)"
  by (auto simp: edge_is_def)

lemma edge_is_trans: "edge_is a b k \<Longrightarrow> edge_is u v k \<longleftrightarrow> edge_is a b (u, v)"
  by (auto simp: edge_is_def)

lemma find_map_keys:
  "find (\<lambda>(k, d). p k) (map (\<lambda>(k, d). (k, g k d)) es)
    = map_option (\<lambda>(k, d). (k, g k d)) (find (\<lambda>(k, d). p k) es)"
  by (induction es) auto

lemma find_key_holds: "find (\<lambda>(k, d). p k) es = Some (k, d) \<Longrightarrow> p k"
  by (induction es) (auto split: if_splits)

lemma edge_attrs_sym: "edge_attrs G a b = edge_attrs G b a"
proof -
  have "edge_is a b = edge_is b a"
    by (rule ext) (rule edge_is_sym)
  then show ?thesis
    by (simp add: edge_attrs_def)
qed

lemma edge_kind_sym: "edge_kind G a b = edge_kind G b a"
  by (simp add: edge_kind_def edge_attrs_sym [of G a b])

lemma has_edge_edge_kind: "has_edge G a b \<longleftrightarrow> edge_kind G a b \<noteq> None"
  by (simp add: has_edge_edge_attrs edge_kind_def)

lemma labels_sym: "labels G a b = labels G b a"
  by (simp add: labels_def edge_kind_sym [of G a b])

lemma has_label_sym: "has_label G a b k = has_label G b a k"
  by (simp add: has_label_def edge_kind_sym [of G a b])

lemma has_label_labels: "has_label G a b k \<longleftrightarrow> k \<in> labels G a b"
  by (simp add: has_label_def labels_def split: option.splits)

lemma kind_add_update: "kind_add G u v k = update_pair (\<lambda>d. d\<lparr>kind := insert k (kind d)\<rparr>) u v G"
  unfolding kind_add_def update_pair_def
  by (rule arg_cong [where f = "\<lambda>x. G\<lparr>edges := x\<rparr>"]) (rule map_cong, auto)

lemma kind_remove_update: "kind_remove G u v k = update_pair (\<lambda>d. d\<lparr>kind := kind d - {k}\<rparr>) u v G"
  unfolding kind_remove_def update_pair_def
  by (rule arg_cong [where f = "\<lambda>x. G\<lparr>edges := x\<rparr>"]) (rule map_cong, auto)

lemma set_edge_features_update:
  "set_edge_features G u v f = update_pair (\<lambda>d. d\<lparr>features := Some f\<rparr>) u v G"
  unfolding set_edge_features_def update_pair_def
  by (rule arg_cong [where f = "\<lambda>x. G\<lparr>edges := x\<rparr>"]) (rule map_cong, auto)

lemma edge_attrs_update_pair:
  "edge_attrs (update_pair g u v G) a b =
    (if edge_is a b (u, v) then map_option g (edge_attrs G a b) else edge_attrs G a b)"
proof (cases "find (\<lambda>(k, d). edge_is a b k) (edges G)")
  case None
  then show ?thesis
    by (simp add: edge_attrs_def update_pair_def find_map_keys)
next
  case (Some e)
  obtain k d where e: "e = (k, d)" by (cases e)
  have "edge_is a b k"
    using Some find_key_holds [of "edge_is a b" "edges G" k d] by (simp add: e)
  then have "edge_is u v k \<longleftrightarrow> edge_is a b (u, v)"
    by (rule edge_is_trans)
  then show ?thesis
    using Some by (simp add: edge_attrs_def update_pair_def find_map_keys e)
qed

lemma edge_kind_kind_add:
  "edge_kind (kind_add G u v k) a b =
    (if edge_is a b (u, v) then map_option (insert k) (edge_kind G a b) else edge_kind G a b)"
  by (simp add: edge_kind_def kind_add_update edge_attrs_update_pair option.map_comp o_def)

lemma edge_kind_kind_remove:
  "edge_kind (kind_remove G u v k) a b =
    (if edge_is a b (u, v) then map_option (\<lambda>K. K - {k}) (edge_kind G a b) else edge_kind G a b)"
  by (simp add: edge_kind_def kind_remove_update edge_attrs_update_pair option.map_comp o_def)

lemma find_filter_keep: "(\<And>e. p e \<Longrightarrow> q e) \<Longrightarrow> find p (filter q es) = find p es"
  by (induction es) auto

lemma find_filter_drop: "(\<And>e. p e \<Longrightarrow> \<not> q e) \<Longrightarrow> find p (filter q es) = None"
  by (induction es) auto

lemma find_snoc:
  "find p (es @ [x]) = (case find p es of None \<Rightarrow> (if p x then Some x else None) | Some e \<Rightarrow> Some e)"
  by (induction es) auto

lemma edge_kind_remove_edge:
  "edge_kind (remove_edge G u v) a b = (if edge_is a b (u, v) then None else edge_kind G a b)"
proof (cases "edge_is a b (u, v)")
  case True
  have "find (\<lambda>(k, d). edge_is a b k) (filter (\<lambda>(key, d). \<not> edge_is u v key) (edges G)) = None"
  proof (rule find_filter_drop)
    fix e :: "(string \<times> string) \<times> edge_data"
    assume "case e of (k, d) \<Rightarrow> edge_is a b k"
    then have "edge_is a b (fst e)" by (simp add: case_prod_unfold)
    then have "edge_is u v (fst e)" using True edge_is_trans by blast
    then show "\<not> (case e of (key, d) \<Rightarrow> \<not> edge_is u v key)" by (simp add: case_prod_unfold)
  qed
  then show ?thesis
    using True by (simp add: edge_kind_def edge_attrs_def remove_edge_def)
next
  case False
  have "find (\<lambda>(k, d). edge_is a b k) (filter (\<lambda>(key, d). \<not> edge_is u v key) (edges G))
      = find (\<lambda>(k, d). edge_is a b k) (edges G)"
  proof (rule find_filter_keep)
    fix e :: "(string \<times> string) \<times> edge_data"
    assume "case e of (k, d) \<Rightarrow> edge_is a b k"
    then have "edge_is a b (fst e)" by (simp add: case_prod_unfold)
    then have "\<not> edge_is u v (fst e)" using False edge_is_trans by blast
    then show "case e of (key, d) \<Rightarrow> \<not> edge_is u v key" by (simp add: case_prod_unfold)
  qed
  then show ?thesis
    using False by (simp add: edge_kind_def edge_attrs_def remove_edge_def)
qed

lemma edge_kind_add_edge:
  "edge_kind (add_edge G u v ks) a b = (if edge_is a b (u, v) then Some ks else edge_kind G a b)"
proof (cases "has_edge G u v")
  case True
  have upd: "edges (add_edge G u v ks) = edges (update_pair (\<lambda>d. d\<lparr>kind := ks\<rparr>) u v G)"
    using True by (auto simp: add_edge_def update_pair_def Let_def intro!: map_cong)
  have same: "edge_kind (add_edge G u v ks) a b
      = edge_kind (update_pair (\<lambda>d. d\<lparr>kind := ks\<rparr>) u v G) a b"
    by (simp add: edge_kind_def edge_attrs_def upd)
  have "edge_is a b (u, v) \<Longrightarrow> edge_attrs G a b = edge_attrs G u v"
    using edge_attrs_sym [of G u v] by (auto simp: edge_is_pair)
  then have "edge_is a b (u, v) \<Longrightarrow> edge_attrs G a b \<noteq> None"
    using True by (simp add: has_edge_edge_attrs)
  then show ?thesis
    unfolding same by (auto simp: edge_kind_def edge_attrs_update_pair)
next
  case False
  then have none: "find (\<lambda>(k, d). edge_is u v k) (edges G) = None"
    by (cases "find (\<lambda>(k, d). edge_is u v k) (edges G)")
      (simp_all add: has_edge_edge_attrs edge_attrs_def)
  have e: "edges (add_edge G u v ks) = edges G @ [((u, v), \<lparr>kind = ks, features = None\<rparr>)]"
    using False by (simp add: add_edge_def Let_def)
  show ?thesis
  proof (cases "edge_is a b (u, v)")
    case True
    have "edge_is a b = edge_is u v"
      using True by (auto simp: edge_is_def fun_eq_iff)
    then have "find (\<lambda>(k, d). edge_is a b k) (edges G) = None"
      using none by simp
    then show ?thesis
      using True by (simp add: edge_kind_def edge_attrs_def e find_snoc)
  next
    case no: False
    then show ?thesis
      by (simp add: edge_kind_def edge_attrs_def e find_snoc split: option.splits)
  qed
qed

lemma edge_kind_fold_kind_add:
  "edge_kind (fold (\<lambda>k g. kind_add g u v k) ks G) a b =
    (if edge_is a b (u, v) then map_option (\<lambda>K. K \<union> set ks) (edge_kind G a b) else edge_kind G a b)"
proof (induction ks arbitrary: G)
  case Nil
  then show ?case by (simp add: option.map_ident)
next
  case (Cons k ks)
  have "map_option (\<lambda>K. K \<union> set ks) (map_option (insert k) x)
      = map_option (\<lambda>K. K \<union> set (k # ks)) x" for x :: "string set option"
    by (cases x) auto
  then show ?case
    by (simp add: Cons edge_kind_kind_add del: set_simps)
qed

lemma edge_kind_commit:
  "edge_kind (commit G u v ks) a b =
    (if edge_is a b (u, v) then Some (labels G a b \<union> set ks) else edge_kind G a b)"
proof (cases "has_edge G u v")
  case True
  have "edge_is a b (u, v) \<Longrightarrow> edge_kind G a b = edge_kind G u v"
    using edge_kind_sym [of G u v] by (auto simp: edge_is_pair)
  then show ?thesis
    using True
    by (auto simp: commit_def edge_kind_fold_kind_add labels_def has_edge_edge_kind)
next
  case False
  have "edge_is a b (u, v) \<Longrightarrow> edge_kind G a b = edge_kind G u v"
    using edge_kind_sym [of G u v] by (auto simp: edge_is_pair)
  then show ?thesis
    using False
    by (auto simp: commit_def edge_kind_add_edge labels_def has_edge_edge_kind)
qed

lemma edge_kind_commit_list:
  "edge_kind (commit_list G ks ps) a b =
    (if \<exists>p \<in> set ps. edge_is a b p then Some (labels G a b \<union> set ks) else edge_kind G a b)"
proof (induction ps arbitrary: G)
  case Nil
  then show ?case by (simp add: commit_list_def)
next
  case (Cons p ps)
  obtain u v where p: "p = (u, v)" by (cases p)
  have step: "commit_list G ks (p # ps) = commit_list (commit G u v ks) ks ps"
    by (simp add: commit_list_def p)
  show ?case
    unfolding step Cons
    by (auto simp: edge_kind_commit labels_def p)
qed

section \<open>One stored edge per pair\<close>

lemma edge_is_swap: "edge_is a b (c, d) \<longleftrightarrow> edge_is c d (a, b)"
  by (auto simp: edge_is_def)

lemma distinct_pairs_filter: "distinct_pairs ks \<Longrightarrow> distinct_pairs (filter p ks)"
  by (induction ks) (auto simp: list_ex_iff)

lemma distinct_pairs_snoc:
  "distinct_pairs (ks @ [k]) \<longleftrightarrow> distinct_pairs ks \<and> \<not> list_ex (edge_is (fst k) (snd k)) ks"
proof (induction ks)
  case Nil
  then show ?case by simp
next
  case (Cons x ks)
  have "edge_is (fst x) (snd x) k \<longleftrightarrow> edge_is (fst k) (snd k) x"
    using edge_is_swap [of "fst x" "snd x" "fst k" "snd k"] by simp
  then show ?case
    using Cons by (auto simp: list_ex_iff)
qed

lemma keys_update_pair: "map fst (edges (update_pair g u v G)) = map fst (edges G)"
  by (simp add: update_pair_def o_def case_prod_unfold)

lemma nodes_update_pair: "nodes (update_pair g u v G) = nodes G"
  by (simp add: update_pair_def)

lemma wf_update_pair: "wf_edges (update_pair g u v G) = wf_edges G"
  by (simp add: wf_edges_def keys_update_pair)

lemma wf_remove_edge: "wf_edges G \<Longrightarrow> wf_edges (remove_edge G u v)"
proof -
  have "map fst (filter (\<lambda>(key, d). \<not> edge_is u v key) es)
      = filter (\<lambda>key. \<not> edge_is u v key) (map fst es)" for es :: "((string \<times> string) \<times> edge_data) list"
    by (induction es) auto
  then show "wf_edges G \<Longrightarrow> wf_edges (remove_edge G u v)"
    by (simp add: wf_edges_def remove_edge_def distinct_pairs_filter)
qed

lemma has_edge_keys: "has_edge G u v \<longleftrightarrow> list_ex (edge_is u v) (map fst (edges G))"
  by (force simp: has_edge_def list_ex_iff)

lemma wf_add_edge: "wf_edges G \<Longrightarrow> wf_edges (add_edge G u v ks)"
proof (cases "has_edge G u v")
  case True
  have "map fst (edges (add_edge G u v ks)) = map fst (edges G)"
    using True by (auto simp: add_edge_def Let_def)
  then show "wf_edges G \<Longrightarrow> wf_edges (add_edge G u v ks)"
    by (simp add: wf_edges_def)
next
  case False
  have "map fst (edges (add_edge G u v ks)) = map fst (edges G) @ [(u, v)]"
    using False by (simp add: add_edge_def Let_def)
  then show "wf_edges G \<Longrightarrow> wf_edges (add_edge G u v ks)"
    using False by (simp add: wf_edges_def distinct_pairs_snoc has_edge_keys)
qed

lemma wf_fold_kind_add: "wf_edges (fold (\<lambda>k g. kind_add g u v k) ks G) = wf_edges G"
  by (induction ks arbitrary: G) (simp_all add: kind_add_update wf_update_pair)

lemma wf_commit: "wf_edges G \<Longrightarrow> wf_edges (commit G u v ks)"
  by (simp add: commit_def wf_fold_kind_add wf_add_edge)

lemma wf_commit_list: "wf_edges G \<Longrightarrow> wf_edges (commit_list G ks ps)"
  unfolding commit_list_def
  by (induction ps arbitrary: G) (simp_all add: wf_commit)

text \<open>With one entry per pair, the entries are what the lookup finds.\<close>

lemma find_distinct_entry:
  assumes "distinct_pairs (map fst es)" and "(key, d) \<in> set es"
  shows "find (\<lambda>(k, x). edge_is (fst key) (snd key) k) es = Some (key, d)"
  using assms
proof (induction es)
  case Nil
  then show ?case by simp
next
  case (Cons e es)
  show ?case
  proof (cases "e = (key, d)")
    case True
    then show ?thesis by (simp add: edge_is_def)
  next
    case False
    then have mem: "(key, d) \<in> set es" using Cons.prems(2) by simp
    have "\<not> list_ex (edge_is (fst (fst e)) (snd (fst e))) (map fst es)"
      using Cons.prems(1) by simp
    then have "\<not> edge_is (fst (fst e)) (snd (fst e)) key"
      using mem by (force simp: list_ex_iff)
    then have "\<not> edge_is (fst key) (snd key) (fst e)"
      using edge_is_swap [of "fst key" "snd key" "fst (fst e)" "snd (fst e)"] by simp
    then show ?thesis
      using Cons.IH [OF _ mem] Cons.prems(1) by (simp add: case_prod_unfold)
  qed
qed

lemma wf_entry_lookup:
  assumes "wf_edges G" and "((u, v), d) \<in> set (edges G)"
  shows "edge_attrs G u v = Some d"
  using find_distinct_entry [of "edges G" "(u, v)" d] assms
  by (simp add: wf_edges_def edge_attrs_def)

lemma lookup_entry:
  assumes "edge_attrs G a b = Some d"
  shows "\<exists>key. (key, d) \<in> set (edges G) \<and> edge_is a b key"
proof -
  from assms obtain key where f: "find (\<lambda>(k, x). edge_is a b k) (edges G) = Some (key, d)"
    by (auto simp: edge_attrs_def)
  then have "(key, d) \<in> set (edges G)"
    by (auto simp: find_Some_iff in_set_conv_nth)
  moreover have "edge_is a b key"
    using f find_key_holds [of "edge_is a b" "edges G" key d] by simp
  ultimately show ?thesis by blast
qed

section \<open>Nodes and their residue names\<close>

lemma map_of_touch_node:
  "map_of (touch_node n ns) m = Some (Some d) \<longleftrightarrow> map_of ns m = Some (Some d)"
proof (cases "n \<in> set (map fst ns)")
  case True
  then show ?thesis by (simp add: touch_node_def)
next
  case False
  then have "map_of ns n = None"
    by (simp add: map_of_eq_None_iff)
  then show ?thesis
    using False by (auto simp: touch_node_def map_add_def split: option.splits)
qed

lemma node_residue_name_iff:
  "node_residue_name G n = Inr a
    \<longleftrightarrow> (\<exists>d. map_of (nodes G) n = Some (Some d) \<and> a = nd_residue_name d)"
  by (auto simp: node_residue_name_def split: option.splits)

lemma nodes_fold_kind_add: "nodes (fold (\<lambda>k g. kind_add g u v k) ks G) = nodes G"
  by (induction ks arbitrary: G) (simp_all add: kind_add_update nodes_update_pair)

lemma node_attrs_commit:
  "map_of (nodes (commit G u v ks)) m = Some (Some d) \<longleftrightarrow> map_of (nodes G) m = Some (Some d)"
  by (simp add: commit_def nodes_fold_kind_add add_edge_def Let_def map_of_touch_node)

lemma node_attrs_commit_list:
  "map_of (nodes (commit_list G ks ps)) m = Some (Some d) \<longleftrightarrow> map_of (nodes G) m = Some (Some d)"
  unfolding commit_list_def
  by (induction ps arbitrary: G) (simp_all add: node_attrs_commit)

lemma node_residue_name_commit_list:
  "node_residue_name (commit_list G ks ps) n = Inr a \<longleftrightarrow> node_residue_name G n = Inr a"
  by (simp add: node_residue_name_iff node_attrs_commit_list)

lemma charged_pair_iff:
  "charged_pair C G u v \<longleftrightarrow>
    (\<exists>a1 a2. node_residue_name G u = Inr a1 \<and> node_residue_name G v = Inr a2 \<and> is_ionic C a1 a2)"
  by (auto simp: charged_pair_def split: sum.splits)

lemma charged_pair_sym: "charged_pair C G u v = charged_pair C G v u"
  by (auto simp: charged_pair_iff is_ionic_def)

lemma charged_pair_commit_list: "charged_pair C (commit_list G ks ps) u v = charged_pair C G u v"
  by (simp add: charged_pair_iff node_residue_name_commit_list)

section \<open>Each detector computes its pairs and commits them\<close>

lemma add_resis_loop_commit_list:
  "add_resis_loop G ks ps = commit_list G ks (filter (\<lambda>(i1, i2). i1 \<noteq> i2) ps)"
  by (induction G ks ps rule: add_resis_loop.induct) (simp_all add: commit_list_def)

lemma typed_pair_loop_pairs:
  "typed_pair_loop G df A B k ps =
    ebind (typed_pairs df A B ps) (\<lambda>qs. Inr (commit_list G [k] qs))"
proof (induction ps arbitrary: G)
  case Nil
  then show ?case by (simp add: ebind_Inr commit_list_def)
next
  case (Cons p ps)
  obtain a1 a2 where p: "p = (a1, a2)" by (cases p)
  show ?case
    unfolding p
    by (cases "loc_node_id df a1"; cases "loc_node_id df a2"; cases "typed_pairs df A B ps")
      (auto simp: Cons ebind_Inr ebind_Inl Let_def commit_list_def)
qed

lemma threshold_detector_pairs:
  assumes "set ks \<subseteq> set BOND_TYPES"
  shows "threshold_detector C G df angstroms ks =
    ebind (threshold_pairs df angstroms) (\<lambda>ps. Inr (commit_list G ks ps))"
proof -
  have "list_all (\<lambda>k. k \<in> set BOND_TYPES) ks"
    using assms by (auto simp: list_all_iff)
  then show ?thesis
    by (auto simp: threshold_detector_def threshold_pairs_def add_interacting_resis_def
        add_resis_loop_commit_list ebind_def split: sum.splits)
qed

lemma commit_list_append: "commit_list (commit_list G ks ps) ks qs = commit_list G ks (ps @ qs)"
  by (simp add: commit_list_def)

lemma run_detector_finish:
  "run_detector C dataframe rgroup_df func G =
    ebind (detector_pairs C dataframe rgroup_df func) (finish C func G)"
proof (cases func)
  case Hydrophobic
  then show ?thesis
    by (auto simp: add_hydrophobic_interactions_def threshold_detector_pairs BOND_TYPES_def
        ebind_def split: sum.splits)
next
  case Disulfide
  then show ?thesis
    by (auto simp: add_disulfide_interactions_def threshold_detector_pairs BOND_TYPES_def
        ebind_def split: sum.splits)
next
  case HydrogenBond
  then show ?thesis
    by (auto simp: add_hydrogen_bond_interactions_def threshold_detector_pairs BOND_TYPES_def
        commit_list_append ebind_def split: sum.splits)
next
  case Ionic
  then show ?thesis
    by (auto simp: add_ionic_interactions_def threshold_detector_pairs BOND_TYPES_def
        ebind_def split: sum.splits)
next
  case Aromatic
  then show ?thesis
    by (auto simp: add_aromatic_interactions_def ebind_def split: sum.splits)
next
  case AromaticSulphur
  then show ?thesis
    by (auto simp: add_aromatic_sulphur_interactions_def typed_pair_loop_pairs Let_def
        ebind_def split: sum.splits)
next
  case CationPi
  then show ?thesis
    by (auto simp: add_cation_pi_interactions_def typed_pair_loop_pairs
        ebind_def split: sum.splits)
qed

section \<open>The check of the ionic detector\<close>

lemma strip_ionic_idem: "strip_ionic (strip_ionic x) = strip_ionic x"
  by (auto simp: strip_ionic_def split: option.splits)

lemma edge_kind_match: "edge_is a b (u, v) \<Longrightarrow> edge_kind G a b = edge_kind G u v"
  using edge_kind_sym [of G u v] by (auto simp: edge_is_pair)

lemma ionic_check_succeeds:
  "(\<exists>G'. ionic_check C G (r1, r2) = Inr G') \<longleftrightarrow> named G r1 \<and> named G r2"
proof -
  have "\<exists>G'. ionic_check C G (r1, r2) = Inr G'"
    if "node_residue_name G r1 = Inr a1" "node_residue_name G r2 = Inr a2" for a1 a2
    using that by (simp add: ionic_check_def ebind_Inr Let_def)
  moreover have "named G r1 \<and> named G r2" if "ionic_check C G (r1, r2) = Inr G'" for G'
    using that by (auto simp: ionic_check_def ebind_eq_Inr named_def)
  ultimately show ?thesis
    by (auto simp: named_def)
qed

lemma ionic_check_result:
  assumes "ionic_check C G (r1, r2) = Inr G'"
  shows "nodes G' = nodes G"
    and "edge_kind G' a b =
      (if edge_is a b (r1, r2) \<and> \<not> charged_pair C G a b then strip_ionic (edge_kind G a b)
       else edge_kind G a b)"
    and "wf_edges G \<Longrightarrow> wf_edges G'"
proof -
  from assms obtain a1 a2 where n: "node_residue_name G r1 = Inr a1" "node_residue_name G r2 = Inr a2"
    by (auto simp: ionic_check_def ebind_eq_Inr)
  have ch: "charged_pair C G r1 r2 = is_ionic C a1 a2"
    using n by (simp add: charged_pair_def)
  have chab: "edge_is a b (r1, r2) \<Longrightarrow> charged_pair C G a b = is_ionic C a1 a2"
    using ch charged_pair_sym [of C G r1 r2] by (auto simp: edge_is_pair)
  let ?G1 = "kind_remove G r1 r2 ''ionic''"
  have empty: "(case edge_attrs ?G1 r1 r2 of None \<Rightarrow> False | Some d \<Rightarrow> kind d = {})
      \<longleftrightarrow> edge_kind ?G1 r1 r2 = Some {}"
    by (simp add: edge_kind_def split: option.splits)
  have eq: "ionic_check C G (r1, r2) = (if \<not> is_ionic C a1 a2 then
        (if edge_kind ?G1 r1 r2 = Some {} then Inr (remove_edge ?G1 r1 r2) else Inr ?G1)
      else Inr G)"
    by (simp add: ionic_check_def n ebind_Inr empty Let_def)
  have run: "(if \<not> is_ionic C a1 a2 then
        (if edge_kind ?G1 r1 r2 = Some {} then Inr (remove_edge ?G1 r1 r2) else Inr ?G1)
      else Inr G) = (Inr G' :: error + graph)"
    using assms [unfolded eq] .
  have G': "G' = (if is_ionic C a1 a2 then G
      else if edge_kind ?G1 r1 r2 = Some {} then remove_edge ?G1 r1 r2 else ?G1)"
  proof (cases "is_ionic C a1 a2")
    case True
    then show ?thesis using run by simp
  next
    case False
    then show ?thesis using run by (cases "edge_kind ?G1 r1 r2 = Some {}") simp_all
  qed
  show "nodes G' = nodes G"
    by (simp add: G' kind_remove_update nodes_update_pair remove_edge_def)
  show "wf_edges G \<Longrightarrow> wf_edges G'"
    by (simp add: G' kind_remove_update wf_update_pair wf_remove_edge)
  have k1: "edge_kind ?G1 x y =
      (if edge_is x y (r1, r2) then map_option (\<lambda>K. K - {''ionic''}) (edge_kind G x y)
       else edge_kind G x y)" for x y
    by (simp add: edge_kind_kind_remove)
  have self: "edge_is r1 r2 (r1, r2)"
    by (simp add: edge_is_def)
  show "edge_kind G' a b =
      (if edge_is a b (r1, r2) \<and> \<not> charged_pair C G a b then strip_ionic (edge_kind G a b)
       else edge_kind G a b)"
  proof (cases "edge_is a b (r1, r2)")
    case True
    have same: "edge_kind G a b = edge_kind G r1 r2"
      using True by (rule edge_kind_match)
    show ?thesis
      using True chab [OF True]
      by (auto simp: G' k1 self same edge_kind_remove_edge strip_ionic_def split: option.splits)
  next
    case False
    then show ?thesis
      by (simp add: G' k1 edge_kind_remove_edge)
  qed
qed

lemma named_nodes: "nodes G' = nodes G \<Longrightarrow> named G' n = named G n"
  by (simp add: named_def node_residue_name_def)

lemma charged_pair_nodes: "nodes G' = nodes G \<Longrightarrow> charged_pair C G' u v = charged_pair C G u v"
  by (simp add: charged_pair_def node_residue_name_def)

lemma ionic_check_loop_succeeds:
  "(\<exists>G'. ionic_check_loop C G L = Inr G') \<longleftrightarrow> (\<forall>p \<in> set L. named G (fst p) \<and> named G (snd p))"
proof (induction L arbitrary: G)
  case Nil
  then show ?case by simp
next
  case (Cons p L)
  obtain r1 r2 where p: "p = (r1, r2)" by (cases p)
  show ?case
  proof (cases "ionic_check C G (r1, r2)")
    case (Inl e)
    then have "\<not> (named G r1 \<and> named G r2)"
      using ionic_check_succeeds [of C G r1 r2] by auto
    then show ?thesis
      using Inl by (auto simp: p ebind_Inl)
  next
    case (Inr G1)
    then have ok: "named G r1 \<and> named G r2"
      using ionic_check_succeeds [of C G r1 r2] by auto
    have "nodes G1 = nodes G"
      using Inr by (rule ionic_check_result(1))
    then have "\<And>n. named G1 n = named G n"
      by (rule named_nodes)
    then show ?thesis
      using Inr ok Cons.IH [of G1] by (simp add: p ebind_Inr)
  qed
qed

lemma ionic_check_loop_result:
  assumes "ionic_check_loop C G L = Inr G'"
  shows "nodes G' = nodes G"
    and "edge_kind G' a b =
      (if (\<exists>p \<in> set L. edge_is a b p) \<and> \<not> charged_pair C G a b then strip_ionic (edge_kind G a b)
       else edge_kind G a b)"
    and "wf_edges G \<Longrightarrow> wf_edges G'"
  using assms
proof (induction L arbitrary: G)
  case Nil
  {
    case 1 then show ?case by simp
  next
    case 2 then show ?case by simp
  next
    case 3 then show ?case by simp
  }
next
  case (Cons p L)
  obtain r1 r2 where p: "p = (r1, r2)" by (cases p)
  {
    case 1
    then obtain G1 where s: "ionic_check C G (r1, r2) = Inr G1"
      and r: "ionic_check_loop C G1 L = Inr G'"
      by (auto simp: p ebind_eq_Inr)
    show ?case
      using Cons.IH(1) [OF r] ionic_check_result(1) [OF s] by simp
  next
    case 2
    then obtain G1 where s: "ionic_check C G (r1, r2) = Inr G1"
      and r: "ionic_check_loop C G1 L = Inr G'"
      by (auto simp: p ebind_eq_Inr)
    have ch: "charged_pair C G1 a b = charged_pair C G a b"
      using ionic_check_result(1) [OF s] by (rule charged_pair_nodes)
    show ?case
      unfolding Cons.IH(2) [OF r] ionic_check_result(2) [OF s] ch
      by (auto simp: p strip_ionic_idem)
  next
    case 3
    from 3(2) obtain G1 where s: "ionic_check C G (r1, r2) = Inr G1"
      and r: "ionic_check_loop C G1 L = Inr G'"
      by (auto simp: p ebind_eq_Inr)
    show ?case
      using Cons.IH(3) [OF _ r] ionic_check_result(3) [OF s] 3(1) by simp
  }
qed

lemma labelled_keys:
  assumes "wf_edges G"
  shows "(\<exists>p \<in> set (get_edges_by_bond_type G k). edge_is a b p) \<longleftrightarrow> has_label G a b k"
proof
  assume "\<exists>p \<in> set (get_edges_by_bond_type G k). edge_is a b p"
  then obtain u v d where e: "((u, v), d) \<in> set (edges G)" "k \<in> kind d" "edge_is a b (u, v)"
    by (auto simp: get_edges_by_bond_type_def)
  have "edge_attrs G u v = Some d"
    using assms e(1) by (rule wf_entry_lookup)
  then have "edge_kind G u v = Some (kind d)"
    by (simp add: edge_kind_def)
  then show "has_label G a b k"
    using e(2) edge_kind_match [OF e(3), of G] by (simp add: has_label_def)
next
  assume "has_label G a b k"
  then obtain d where d: "edge_attrs G a b = Some d" "k \<in> kind d"
    by (auto simp: has_label_def edge_kind_def split: option.splits)
  from lookup_entry [OF d(1)] obtain key where key: "(key, d) \<in> set (edges G)" "edge_is a b key"
    by blast
  have "(key, d) \<in> set (filter (\<lambda>(k', d'). k \<in> kind d') (edges G))"
    using key(1) d(2) by simp
  then have "fst (key, d) \<in> fst ` set (filter (\<lambda>(k', d'). k \<in> kind d') (edges G))"
    by (rule imageI)
  then have "key \<in> set (get_edges_by_bond_type G k)"
    by (simp add: get_edges_by_bond_type_def)
  then show "\<exists>p \<in> set (get_edges_by_bond_type G k). edge_is a b p"
    using key(2) by blast
qed

section \<open>The loop of the aromatic detector\<close>

lemma aromatic_node_commit: "aromatic_node C (commit G u v ks) n = aromatic_node C G n"
  by (simp add: aromatic_node_def node_residue_name_iff node_attrs_commit)

lemma aromatic_loop_result:
  "aromatic_loop C G ps = Inr G' \<longleftrightarrow>
    (\<forall>p \<in> set ps. aromatic_node C G (fst p) \<and> aromatic_node C G (snd p))
      \<and> G' = commit_list G [''aromatic''] ps"
proof (induction ps arbitrary: G)
  case Nil
  then show ?case by (auto simp: commit_list_def)
next
  case (Cons p ps)
  obtain n1 n2 where p: "p = (n1, n2)" by (cases p)
  have step: "aromatic_loop C G (p # ps) = Inr G' \<longleftrightarrow>
      aromatic_node C G n1 \<and> aromatic_node C G n2
        \<and> aromatic_loop C (commit G n1 n2 [''aromatic'']) ps = Inr G'"
    by (auto simp: p ebind_eq_Inr aromatic_node_def split: if_splits)
  show ?case
    unfolding step Cons
    by (auto simp: p aromatic_node_commit commit_list_def)
qed

section \<open>Which pairs a threshold detector commits\<close>

lemma coords_xyz: "coords df = map xyz (map snd df)"
  by (simp add: coords_def xyz_def case_prod_unfold)

lemma set_np_where:
  "set (np_where cond m) = {(i, j). i < length m \<and> j < length (m ! i) \<and> cond (m ! i ! j)}"
  by (auto simp: np_where_def)

lemma compute_distmat_Inr:
  assumes "ps \<noteq> []"
  shows "\<exists>D. compute_distmat ps = Inr D \<and> length D = length ps
    \<and> (\<forall>i < length ps. length (D ! i) = length ps
        \<and> (\<forall>j < length ps. D ! i ! j = euclidean (ps ! i) (ps ! j)))"
  using assms by (simp add: compute_distmat_def)

lemma compute_distmat_eq_Inr:
  assumes "compute_distmat ps = Inr D"
  shows "ps \<noteq> [] \<and> length D = length ps
    \<and> (\<forall>i < length ps. length (D ! i) = length ps
        \<and> (\<forall>j < length ps. D ! i ! j = euclidean (ps ! i) (ps ! j)))"
  using assms by (auto simp: compute_distmat_def split: if_splits)

lemma emap_Inr:
  assumes "\<And>x. x \<in> set xs \<Longrightarrow> f x = Inr (g x)"
  shows "emap f xs = Inr (map g xs)"
  using assms by (induction xs) (simp_all add: ebind_Inr)

lemma emap_eq_Inr:
  assumes "emap f xs = Inr ys"
  shows "length ys = length xs \<and> (\<forall>i < length xs. f (xs ! i) = Inr (ys ! i))"
  using assms
proof (induction xs arbitrary: ys)
  case Nil
  then show ?case by simp
next
  case (Cons x xs)
  then obtain y zs where y: "f x = Inr y" and zs: "emap f xs = Inr zs" and ys: "ys = y # zs"
    by (auto simp: ebind_eq_Inr)
  show ?case
    using Cons.IH [OF zs] y by (auto simp: ys nth_Cons')
qed

lemma loc_node_id_labelled:
  assumes "map fst df = [0..<length df]" and "i < length df"
  shows "loc_node_id df i = Inr (node_id (snd (df ! i)))"
proof -
  have "fst (df ! i) = i"
    using assms by (metis nth_map nth_upt add_0)
  then have "(i, snd (df ! i)) \<in> set df"
    using assms(2) by (metis nth_mem prod.collapse)
  moreover have "distinct (map fst df)"
    using assms(1) by simp
  ultimately have "map_of df i = Some (snd (df ! i))"
    by simp
  then show ?thesis
    by (simp add: loc_node_id_def)
qed

lemma zip_map_fst_snd_pairs:
  "zip (map f (map fst xs)) (map g (map snd xs)) = map (\<lambda>(i, j). (f i, g j)) xs"
  by (induction xs) auto

text \<open>
  On a table labelled 0, 1, 2, ... (every table \<^verbatim>\<open>filter_dataframe\<close> returns), the
  pairs are the pairs of distinct node identifiers of two atoms within the threshold.
\<close>

lemma threshold_pairs_labelled:
  assumes lab: "map fst df = [0..<length df]" and ne: "df \<noteq> []"
  shows "\<exists>ps. threshold_pairs df angstroms = Inr ps
    \<and> set ps = {(node_id a, node_id b) | a b.
          a \<in> set (map snd df) \<and> b \<in> set (map snd df)
          \<and> euclidean (xyz a) (xyz b) \<le> angstroms \<and> node_id a \<noteq> node_id b}"
proof -
  let ?n = "length df"
  let ?g = "\<lambda>i. node_id (snd (df ! i))"
  have "coords df \<noteq> []" using ne by (simp add: coords_def)
  from compute_distmat_Inr [OF this] obtain D where
    D: "compute_distmat (coords df) = Inr D" "length D = ?n"
      "\<And>i. i < ?n \<Longrightarrow> length (D ! i) = ?n"
      "\<And>i j. i < ?n \<Longrightarrow> j < ?n \<Longrightarrow> D ! i ! j = euclidean (coords df ! i) (coords df ! j)"
    by (auto simp: coords_def)
  let ?ia = "get_interacting_atoms angstroms D"
  have ia: "set ?ia = {(i, j). i < ?n \<and> j < ?n
      \<and> euclidean (xyz (snd (df ! i))) (xyz (snd (df ! j))) \<le> angstroms}"
    using D(2,3,4) by (auto simp: get_interacting_atoms_def set_np_where coords_xyz)
  have r1: "emap (loc_node_id df) (map fst ?ia) = Inr (map ?g (map fst ?ia))"
    by (rule emap_Inr) (use ia lab loc_node_id_labelled in auto)
  have r2: "emap (loc_node_id df) (map snd ?ia) = Inr (map ?g (map snd ?ia))"
    by (rule emap_Inr) (use ia lab loc_node_id_labelled in auto)
  let ?ps = "filter (\<lambda>(i1, i2). i1 \<noteq> i2)
      (remdups (zip (map ?g (map fst ?ia)) (map ?g (map snd ?ia))))"
  have run: "threshold_pairs df angstroms = Inr ?ps"
    by (simp add: threshold_pairs_def D(1) r1 r2 ebind_Inr)
  have z: "zip (map ?g (map fst ?ia)) (map ?g (map snd ?ia)) = map (\<lambda>(i, j). (?g i, ?g j)) ?ia"
    by (rule zip_map_fst_snd_pairs)
  have "set ?ps = {(node_id a, node_id b) | a b.
          a \<in> set (map snd df) \<and> b \<in> set (map snd df)
          \<and> euclidean (xyz a) (xyz b) \<le> angstroms \<and> node_id a \<noteq> node_id b}"
    (is "_ = ?R")
  proof (intro set_eqI iffI)
    fix p assume "p \<in> set ?ps"
    then obtain i j where "(i, j) \<in> set ?ia" "p = (?g i, ?g j)" "?g i \<noteq> ?g j"
      unfolding z by auto
    then have "i < ?n" "j < ?n"
      "euclidean (xyz (snd (df ! i))) (xyz (snd (df ! j))) \<le> angstroms"
      "p = (?g i, ?g j)" "?g i \<noteq> ?g j"
      using ia by auto
    moreover from this have "snd (df ! i) \<in> set (map snd df)" "snd (df ! j) \<in> set (map snd df)"
      by simp_all
    ultimately show "p \<in> ?R"
      by blast
  next
    fix p assume "p \<in> ?R"
    then obtain a b where ab: "p = (node_id a, node_id b)" "a \<in> set (map snd df)"
      "b \<in> set (map snd df)" "euclidean (xyz a) (xyz b) \<le> angstroms" "node_id a \<noteq> node_id b"
      by blast
    then obtain i j where ij: "i < ?n" "a = snd (df ! i)" "j < ?n" "b = snd (df ! j)"
      by (auto simp: in_set_conv_nth)
    then have "(i, j) \<in> set ?ia"
      using ab(4) ia by simp
    then have "(?g i, ?g j) \<in> set (map (\<lambda>(i, j). (?g i, ?g j)) ?ia)"
      by force
    then show "p \<in> set ?ps"
      unfolding z using ab(1,5) ij by simp
  qed
  then show ?thesis
    using run by blast
qed

lemma filter_dataframe_labelled:
  assumes "filter_dataframe df c vs b = Inr out"
  shows "map fst out = [0..<length out]"
    and "set (map snd out) = {r \<in> set (map snd df). row_selected c vs b r}"
  using filter_dataframe_rows [OF assms] by auto

lemma row_selected_residue_name:
  "row_selected ''residue_name'' (strs xs) True r \<longleftrightarrow> residue_name r \<in> set xs"
  by (auto simp: row_selected_def column_def strs_def)

lemma row_selected_atom_name:
  "row_selected ''atom_name'' (strs xs) b r \<longleftrightarrow> (atom_name r \<in> set xs) = b"
  by (auto simp: row_selected_def column_def strs_def)

section \<open>The ionic detector\<close>

lemma strip_ionic_no_label: "strip_ionic x = Some K \<Longrightarrow> ''ionic'' \<notin> K \<and> K \<noteq> {}"
  by (auto simp: strip_ionic_def split: option.splits if_splits)

lemma threshold_pairs_nonempty: "threshold_pairs df r = Inr ps \<Longrightarrow> df \<noteq> []"
  by (auto simp: threshold_pairs_def ebind_eq_Inr coords_def dest!: compute_distmat_eq_Inr)

text \<open>What the ionic detector returns, edge by edge.\<close>

lemma add_ionic_interactions_result:
  assumes run: "add_ionic_interactions C rgroup_df G = Inr G'" and wf: "wf_edges G"
  shows "\<exists>ps. detector_pairs C dataframe rgroup_df Ionic = Inr ps
    \<and> wf_edges G'
    \<and> (\<forall>n a. node_residue_name G' n = Inr a \<longleftrightarrow> node_residue_name G n = Inr a)
    \<and> (\<forall>a b. edge_kind G' a b =
          (let x = (if \<exists>p \<in> set ps. edge_is a b p then Some (insert ''ionic'' (labels G a b))
                    else edge_kind G a b)
           in if (case x of None \<Rightarrow> False | Some K \<Rightarrow> ''ionic'' \<in> K) \<and> \<not> charged_pair C G a b
              then strip_ionic x else x))"
proof -
  have "run_detector C dataframe rgroup_df Ionic G = Inr G'"
    using run by simp
  then obtain ps where ps: "detector_pairs C dataframe rgroup_df Ionic = Inr ps"
    and fin: "finish C Ionic G ps = Inr G'"
    unfolding run_detector_finish by (auto simp: ebind_eq_Inr)
  let ?H = "commit_list G [''ionic''] ps"
  have loop: "ionic_check_loop C ?H (get_edges_by_bond_type ?H ''ionic'') = Inr G'"
    using fin by simp
  have wfH: "wf_edges ?H"
    using wf by (rule wf_commit_list)
  have nodes: "nodes G' = nodes ?H"
    using loop by (rule ionic_check_loop_result(1))
  have names: "node_residue_name G' n = Inr a \<longleftrightarrow> node_residue_name G n = Inr a" for n a
    using nodes node_residue_name_commit_list [of G "[''ionic'']" ps n a]
    by (simp add: node_residue_name_def)
  have kinds: "edge_kind G' a b =
      (if has_label ?H a b ''ionic'' \<and> \<not> charged_pair C G a b then strip_ionic (edge_kind ?H a b)
       else edge_kind ?H a b)" for a b
    using ionic_check_loop_result(2) [OF loop, of a b] labelled_keys [OF wfH, of "''ionic''" a b]
    by (simp add: charged_pair_commit_list)
  have "edge_kind G' a b =
      (let x = (if \<exists>p \<in> set ps. edge_is a b p then Some (insert ''ionic'' (labels G a b))
                else edge_kind G a b)
       in if (case x of None \<Rightarrow> False | Some K \<Rightarrow> ''ionic'' \<in> K) \<and> \<not> charged_pair C G a b
          then strip_ionic x else x)" for a b
    unfolding kinds by (simp add: edge_kind_commit_list has_label_def Let_def)
  moreover have "wf_edges G'"
    using wfH loop by (simp add: ionic_check_loop_result(3))
  ultimately show ?thesis
    using ps names by blast
qed

lemma ionic_pairs_within:
  assumes "detector_pairs C dataframe rgroup_df Ionic = Inr ps"
  shows "set ps = {(node_id a, node_id b) | a b.
      a \<in> set (map snd rgroup_df) \<and> residue_name a \<in> set (IONIC_RESIS C)
      \<and> b \<in> set (map snd rgroup_df) \<and> residue_name b \<in> set (IONIC_RESIS C)
      \<and> euclidean (xyz a) (xyz b) \<le> 6 \<and> node_id a \<noteq> node_id b}"
proof -
  from assms obtain df where
    df: "filter_dataframe rgroup_df ''residue_name'' (strs (IONIC_RESIS C)) True = Inr df"
    and tp: "threshold_pairs df 6 = Inr ps"
    by (auto simp: ebind_eq_Inr)
  have rows: "set (map snd df)
      = {r \<in> set (map snd rgroup_df). residue_name r \<in> set (IONIC_RESIS C)}"
    using filter_dataframe_labelled(2) [OF df] by (simp add: row_selected_residue_name)
  from threshold_pairs_labelled [OF filter_dataframe_labelled(1) [OF df]
      threshold_pairs_nonempty [OF tp], of 6] tp
  have "set ps = {(node_id a, node_id b) | a b.
      a \<in> set (map snd df) \<and> b \<in> set (map snd df)
      \<and> euclidean (xyz a) (xyz b) \<le> 6 \<and> node_id a \<noteq> node_id b}"
    by auto
  then show ?thesis
    unfolding rows by blast
qed

text \<open>
  Claim C3. Let \<^verbatim>\<open>add_ionic_interactions_\<close> return from a graph with one stored edge per
  pair and no empty kind set. Then every edge whose kind set contains \<^verbatim>\<open>ionic\<close> joins two
  nodes with residue names of which one is in \<^verbatim>\<open>POS_AA\<close> and the other in \<^verbatim>\<open>NEG_AA\<close>
  (\<open>charged_pair\<close>), and no edge has an empty kind set. For two atoms of ionic residues
  in the R-group table, within 6 of each other and of different residues, whose residues
  fail that condition: the edge between the residues does not carry \<^verbatim>\<open>ionic\<close>, it keeps
  exactly the other labels it had, and it exists only if there is such a label.
\<close>

theorem ionic_invariant:
  assumes run: "add_ionic_interactions C rgroup_df G = Inr G'"
    and wf: "wf_edges G"
    and ne: "list_all (\<lambda>e. kind (snd e) \<noteq> {}) (edges G)"
  shows "(\<forall>e \<in> set (edges G').
            (''ionic'' \<in> kind (snd e) \<longrightarrow> charged_pair C G' (fst (fst e)) (snd (fst e)))
            \<and> kind (snd e) \<noteq> {})
    \<and> (\<forall>a b. a \<in> set (map snd rgroup_df) \<and> residue_name a \<in> set (IONIC_RESIS C)
            \<and> b \<in> set (map snd rgroup_df) \<and> residue_name b \<in> set (IONIC_RESIS C)
            \<and> euclidean (xyz a) (xyz b) \<le> 6 \<and> node_id a \<noteq> node_id b
            \<and> \<not> charged_pair C G' (node_id a) (node_id b)
          \<longrightarrow> \<not> has_label G' (node_id a) (node_id b) ''ionic''
            \<and> labels G' (node_id a) (node_id b) = labels G (node_id a) (node_id b) - {''ionic''}
            \<and> (has_edge G' (node_id a) (node_id b)
                \<longleftrightarrow> labels G (node_id a) (node_id b) - {''ionic''} \<noteq> {}))"
proof -
  from add_ionic_interactions_result [OF run wf, of rgroup_df] obtain ps where
    ps: "detector_pairs C rgroup_df rgroup_df Ionic = Inr ps"
    and wf': "wf_edges G'"
    and names: "\<And>n a. node_residue_name G' n = Inr a \<longleftrightarrow> node_residue_name G n = Inr a"
    and kinds: "\<And>a b. edge_kind G' a b =
          (let x = (if \<exists>p \<in> set ps. edge_is a b p then Some (insert ''ionic'' (labels G a b))
                    else edge_kind G a b)
           in if (case x of None \<Rightarrow> False | Some K \<Rightarrow> ''ionic'' \<in> K) \<and> \<not> charged_pair C G a b
              then strip_ionic x else x)"
    by blast
  have ch: "charged_pair C G' u v = charged_pair C G u v" for u v
    by (simp add: charged_pair_iff names)
  have old: "K \<noteq> {}" if "edge_kind G u v = Some K" for u v K
  proof -
    from that obtain d where d: "edge_attrs G u v = Some d" "K = kind d"
      by (auto simp: edge_kind_def)
    from lookup_entry [OF d(1)] obtain key where "(key, d) \<in> set (edges G)" by blast
    then show ?thesis using ne d(2) by (auto simp: list_all_iff)
  qed
  have entries: "(''ionic'' \<in> kind (snd e) \<longrightarrow> charged_pair C G' (fst (fst e)) (snd (fst e)))
      \<and> kind (snd e) \<noteq> {}" if e: "e \<in> set (edges G')" for e
  proof -
    obtain u v d where uvd: "e = ((u, v), d)" by (metis prod.collapse)
    have "edge_attrs G' u v = Some d"
      using wf' e by (simp add: uvd wf_entry_lookup)
    then have k: "edge_kind G' u v = Some (kind d)"
      by (simp add: edge_kind_def)
    let ?x = "if \<exists>p \<in> set ps. edge_is u v p then Some (insert ''ionic'' (labels G u v))
        else edge_kind G u v"
    show ?thesis
    proof (cases "(case ?x of None \<Rightarrow> False | Some K \<Rightarrow> ''ionic'' \<in> K) \<and> \<not> charged_pair C G u v")
      case True
      then have "strip_ionic ?x = Some (kind d)"
        using kinds [of u v] k by (simp add: Let_def)
      then show ?thesis
        using strip_ionic_no_label by (simp add: uvd)
    next
      case False
      then have x: "?x = Some (kind d)"
        using kinds [of u v] k by (auto simp: Let_def)
      then have "''ionic'' \<in> kind d \<longrightarrow> charged_pair C G u v"
        using False by auto
      moreover have "kind d \<noteq> {}"
        using x old [of u v "kind d"] by (auto split: if_splits)
      ultimately show ?thesis
        by (simp add: uvd ch)
    qed
  qed
  have cand: "\<not> has_label G' (node_id a) (node_id b) ''ionic''
      \<and> labels G' (node_id a) (node_id b) = labels G (node_id a) (node_id b) - {''ionic''}
      \<and> (has_edge G' (node_id a) (node_id b)
          \<longleftrightarrow> labels G (node_id a) (node_id b) - {''ionic''} \<noteq> {})"
    if "a \<in> set (map snd rgroup_df) \<and> residue_name a \<in> set (IONIC_RESIS C)
        \<and> b \<in> set (map snd rgroup_df) \<and> residue_name b \<in> set (IONIC_RESIS C)
        \<and> euclidean (xyz a) (xyz b) \<le> 6 \<and> node_id a \<noteq> node_id b
        \<and> \<not> charged_pair C G' (node_id a) (node_id b)" for a b
  proof -
    have "(node_id a, node_id b) \<in> set ps"
      using that unfolding ionic_pairs_within [OF ps] by blast
    then have "\<exists>p \<in> set ps. edge_is (node_id a) (node_id b) p"
      by (auto simp: edge_is_def)
    then have "edge_kind G' (node_id a) (node_id b)
        = strip_ionic (Some (insert ''ionic'' (labels G (node_id a) (node_id b))))"
      using kinds [of "node_id a" "node_id b"] that ch by (simp add: Let_def)
    then show ?thesis
      by (auto simp: strip_ionic_def has_label_def labels_def has_edge_edge_kind
          split: if_splits option.splits)
  qed
  show ?thesis
    using entries cand by blast
qed

lemma example_ionic_eq:
  "add_ionic_interactions example_resi_atoms example_rgroup example_backbone = Inr example_ionic"
  by (simp add: add_ionic_interactions_def threshold_detector_def add_interacting_resis_def
      BOND_TYPES_def example_rgroup_def table_eval dist_eval loc_node_id_def id_eval is_ionic_def
      ionic_check_def graph_eval example_backbone_def example_ionic_def
      cong: ebind_weak_cong)

lemma example_backbone_wf: "wf_edges example_backbone"
  by (simp add: wf_edges_def example_backbone_def link_def edge_is_def)

theorem ionic_invariant_witness:
  "add_ionic_interactions example_resi_atoms example_rgroup example_backbone = Inr example_ionic
   \<and> wf_edges example_backbone
   \<and> list_all (\<lambda>e. kind (snd e) \<noteq> {}) (edges example_backbone)
   \<and> link ''A1ARG'' ''A2ASP'' {''ionic'', ''backbone''} \<in> set (edges example_ionic)
   \<and> charged_pair example_resi_atoms example_ionic ''A1ARG'' ''A2ASP''
   \<and> has_label example_ionic ''A1ARG'' ''A2ASP'' ''ionic''
   \<and> euclidean (xyz (atm ''NH1'' ''ARG'' ''A'' 1 0 2 0)) (xyz (atm ''NZ'' ''LYS'' ''A'' 3 6 2 0)) \<le> 6
   \<and> \<not> charged_pair example_resi_atoms example_ionic ''A1ARG'' ''A3LYS''
   \<and> \<not> has_label example_ionic ''A1ARG'' ''A3LYS'' ''ionic''
   \<and> \<not> has_edge example_ionic ''A1ARG'' ''A3LYS''"
proof -
  let ?a = "atm ''NH1'' ''ARG'' ''A'' 1 0 2 0" and ?b = "atm ''NZ'' ''LYS'' ''A'' 3 6 2 0"
  have ne: "list_all (\<lambda>e. kind (snd e) \<noteq> {}) (edges example_backbone)"
    by (simp add: example_backbone_def link_def)
  note inv = ionic_invariant [OF example_ionic_eq example_backbone_wf ne]
  have ids: "node_id ?a = ''A1ARG''" "node_id ?b = ''A3LYS''"
    by (simp_all add: atm_def id_eval)
  have far: "euclidean (xyz ?a) (xyz ?b) \<le> 6"
    by (simp add: xyz_def atm_def euclidean_def sqrt_le_iff)
  have nch: "\<not> charged_pair example_resi_atoms example_ionic ''A1ARG'' ''A3LYS''"
    by (simp add: charged_pair_def node_residue_name_def example_ionic_def example_backbone_def
        res_node_def is_ionic_def example_resi_atoms_def)
  have prem: "?a \<in> set (map snd example_rgroup)
      \<and> residue_name ?a \<in> set (IONIC_RESIS example_resi_atoms)
      \<and> ?b \<in> set (map snd example_rgroup)
      \<and> residue_name ?b \<in> set (IONIC_RESIS example_resi_atoms)
      \<and> euclidean (xyz ?a) (xyz ?b) \<le> 6 \<and> node_id ?a \<noteq> node_id ?b
      \<and> \<not> charged_pair example_resi_atoms example_ionic (node_id ?a) (node_id ?b)"
  proof -
    have "?a \<in> set (map snd example_rgroup)" "?b \<in> set (map snd example_rgroup)"
      by (simp_all add: example_rgroup_def upt_conv_Cons)
    moreover have "residue_name ?a \<in> set (IONIC_RESIS example_resi_atoms)"
      "residue_name ?b \<in> set (IONIC_RESIS example_resi_atoms)"
      by (simp_all add: example_resi_atoms_def atm_def)
    moreover have "node_id ?a \<noteq> node_id ?b"
      by (simp add: ids)
    ultimately show ?thesis
      using far nch unfolding ids by blast
  qed
  have lab: "labels example_backbone ''A1ARG'' ''A3LYS'' = {}"
    by (simp add: labels_def edge_kind_def example_backbone_def graph_eval)
  have "\<not> has_label example_ionic ''A1ARG'' ''A3LYS'' ''ionic''
      \<and> \<not> has_edge example_ionic ''A1ARG'' ''A3LYS''"
    using inv prem lab unfolding ids [symmetric] by blast
  moreover have "has_label example_ionic ''A1ARG'' ''A2ASP'' ''ionic''"
    by (simp add: has_label_def edge_kind_def example_ionic_def graph_eval)
  moreover have e: "link ''A1ARG'' ''A2ASP'' {''ionic'', ''backbone''} \<in> set (edges example_ionic)"
    by (simp add: example_ionic_def)
  moreover have "charged_pair example_resi_atoms example_ionic ''A1ARG'' ''A2ASP''"
  proof -
    have "\<forall>e \<in> set (edges example_ionic). ''ionic'' \<in> kind (snd e)
        \<longrightarrow> charged_pair example_resi_atoms example_ionic (fst (fst e)) (snd (fst e))"
      using inv by blast
    from this [rule_format, OF e] show ?thesis
      by (simp add: link_def)
  qed
  ultimately show ?thesis
    using example_ionic_eq example_backbone_wf ne far nch by blast
qed

section \<open>Ring centroids and the pairs of the aromatic detector\<close>

lemma get_ring_atoms_rows:
  assumes "get_ring_atoms C df aa = Inr ring"
  shows "\<exists>atoms. map_of (AA_RING_ATOMS C) aa = Some atoms
    \<and> map snd ring = filter (\<lambda>r. residue_name r = aa \<and> atom_name r \<in> set atoms) (map snd df)"
proof -
  from assms obtain d1 atoms where
    d1: "filter_dataframe df ''residue_name'' [Str aa] True = Inr d1"
    and atoms: "map_of (AA_RING_ATOMS C) aa = Some atoms"
    and ring: "filter_dataframe d1 ''atom_name'' (strs atoms) True = Inr ring"
    by (auto simp: get_ring_atoms_def ebind_eq_Inr split: option.splits)
  have sel1: "row_selected ''residue_name'' [Str aa] True = (\<lambda>r. residue_name r = aa)"
    by (auto simp: row_selected_def column_def fun_eq_iff)
  have sel2: "row_selected ''atom_name'' (strs atoms) True = (\<lambda>r. atom_name r \<in> set atoms)"
    by (auto simp: row_selected_atom_name fun_eq_iff)
  have "map snd ring = filter (\<lambda>r. atom_name r \<in> set atoms)
      (filter (\<lambda>r. residue_name r = aa) (map snd df))"
    using filter_dataframe_rows(1) [OF ring] filter_dataframe_rows(1) [OF d1]
    by (simp add: sel1 sel2)
  then show ?thesis
    using atoms by (simp add: conj_commute)
qed

lemma get_ring_centroids_mem:
  "(g, c) \<in> set (get_ring_centroids ring) \<longleftrightarrow>
    g \<in> node_id ` set (map snd ring)
      \<and> c = centroid (filter (\<lambda>r. node_id r = g) (map snd ring))"
proof -
  have "(\<lambda>(i, r). node_id r) ` set ring = node_id ` snd ` set ring"
    by (force simp: image_iff)
  then show ?thesis
    by (auto simp: get_ring_centroids_def centroid_def Let_def)
qed

lemma emap_mem:
  assumes "emap f xs = Inr ys"
  shows "y \<in> set ys \<longleftrightarrow> (\<exists>x \<in> set xs. f x = Inr y)"
  using assms
proof (induction xs arbitrary: ys)
  case Nil
  then show ?case by auto
next
  case (Cons x xs)
  then obtain z zs where "f x = Inr z" "emap f xs = Inr zs" "ys = z # zs"
    by (auto simp: ebind_eq_Inr)
  then show ?case
    using Cons.IH [of zs] by auto
qed

lemma aromatic_centroids_mem:
  assumes "aromatic_centroids C df = Inr cents"
  shows "(g, c) \<in> set cents \<longleftrightarrow>
    (\<exists>aa \<in> set (AROMATIC_RESIS C). ring_atoms_of C df aa g \<noteq> []
        \<and> c = centroid (ring_atoms_of C df aa g))"
proof -
  let ?f = "\<lambda>resi. ebind (get_ring_atoms C df resi)
      (\<lambda>resi_rings_df. Inr (get_ring_centroids resi_rings_df))"
  from assms obtain dfs where dfs: "emap ?f (AROMATIC_RESIS C) = Inr dfs"
    and cents: "cents = sort_key fst (concat dfs)"
    by (auto simp: aromatic_centroids_def ebind_eq_Inr)
  have all: "\<exists>ring. get_ring_atoms C df aa = Inr ring" if "aa \<in> set (AROMATIC_RESIS C)" for aa
  proof -
    have "\<exists>y. ?f aa = Inr y"
      using that emap_eq_Inr [OF dfs] by (metis in_set_conv_nth)
    then show ?thesis by (auto simp: ebind_eq_Inr)
  qed
  have rows: "filter (\<lambda>r. node_id r = g) (map snd ring) = ring_atoms_of C df aa g"
    if "get_ring_atoms C df aa = Inr ring" for aa ring
    using get_ring_atoms_rows [OF that] by (auto simp: ring_atoms_of_def conj_ac)
  have mem: "(g, c) \<in> set (get_ring_centroids ring) \<longleftrightarrow>
      ring_atoms_of C df aa g \<noteq> [] \<and> c = centroid (ring_atoms_of C df aa g)"
    if "get_ring_atoms C df aa = Inr ring" for aa ring
  proof -
    have "g \<in> node_id ` set (map snd ring) \<longleftrightarrow> filter (\<lambda>r. node_id r = g) (map snd ring) \<noteq> []"
      by (auto simp: filter_empty_conv)
    then show ?thesis
      unfolding get_ring_centroids_mem rows [OF that] by simp
  qed
  have "(g, c) \<in> set cents \<longleftrightarrow> (\<exists>d \<in> set dfs. (g, c) \<in> set d)"
    by (simp add: cents)
  also have "\<dots> \<longleftrightarrow> (\<exists>aa \<in> set (AROMATIC_RESIS C). \<exists>ring. get_ring_atoms C df aa = Inr ring
      \<and> (g, c) \<in> set (get_ring_centroids ring))"
  proof
    assume "\<exists>d \<in> set dfs. (g, c) \<in> set d"
    then obtain d where d: "d \<in> set dfs" "(g, c) \<in> set d" by blast
    from d(1) obtain aa where "aa \<in> set (AROMATIC_RESIS C)" "?f aa = Inr d"
      using emap_mem [OF dfs, of d] by blast
    then show "\<exists>aa \<in> set (AROMATIC_RESIS C). \<exists>ring. get_ring_atoms C df aa = Inr ring
        \<and> (g, c) \<in> set (get_ring_centroids ring)"
      using d(2) by (auto simp: ebind_eq_Inr)
  next
    assume "\<exists>aa \<in> set (AROMATIC_RESIS C). \<exists>ring. get_ring_atoms C df aa = Inr ring
        \<and> (g, c) \<in> set (get_ring_centroids ring)"
    then obtain aa ring where a: "aa \<in> set (AROMATIC_RESIS C)"
      "get_ring_atoms C df aa = Inr ring" "(g, c) \<in> set (get_ring_centroids ring)"
      by blast
    then have "?f aa = Inr (get_ring_centroids ring)"
      by (simp add: ebind_Inr)
    then have "get_ring_centroids ring \<in> set dfs"
      using emap_mem [OF dfs, of "get_ring_centroids ring"] a(1) by blast
    then show "\<exists>d \<in> set dfs. (g, c) \<in> set d"
      using a(3) by blast
  qed
  also have "\<dots> \<longleftrightarrow> (\<exists>aa \<in> set (AROMATIC_RESIS C). ring_atoms_of C df aa g \<noteq> []
      \<and> c = centroid (ring_atoms_of C df aa g))"
    using all mem by blast
  finally show ?thesis .
qed

lemma euclidean_self: "euclidean p p = 0"
  by (simp add: euclidean_def split: prod.splits)

lemma aromatic_pairs_set:
  assumes "compute_distmat (map snd cents) = Inr D"
  shows "set (aromatic_pairs cents D) =
    {(g1, g2) | g1 c1 g2 c2. (g1, c1) \<in> set cents \<and> (g2, c2) \<in> set cents
        \<and> 4.5 \<le> euclidean c1 c2 \<and> euclidean c1 c2 \<le> 7}"
    (is "?L = ?R")
proof -
  let ?n = "length cents"
  from compute_distmat_eq_Inr [OF assms] have
    D: "length D = ?n" "\<And>i. i < ?n \<Longrightarrow> length (D ! i) = ?n"
      "\<And>i j. i < ?n \<Longrightarrow> j < ?n \<Longrightarrow> D ! i ! j = euclidean (snd (cents ! i)) (snd (cents ! j))"
    by auto
  have cond: "((if 4.5 \<le> d \<and> d \<le> 7 then d else 0) > 0) \<longleftrightarrow> 4.5 \<le> d \<and> d \<le> 7" for d :: real
    by auto
  have w: "set (np_where (\<lambda>d. (if 4.5 \<le> d \<and> d \<le> 7 then d else 0) > 0) D) =
      {(i, j). i < ?n \<and> j < ?n
        \<and> 4.5 \<le> euclidean (snd (cents ! i)) (snd (cents ! j))
        \<and> euclidean (snd (cents ! i)) (snd (cents ! j)) \<le> 7}"
    unfolding set_np_where cond using D by auto
  show ?thesis
  proof (intro set_eqI iffI)
    fix p assume "p \<in> ?L"
    then obtain i j where ij: "i < ?n" "j < ?n"
      "4.5 \<le> euclidean (snd (cents ! i)) (snd (cents ! j))"
      "euclidean (snd (cents ! i)) (snd (cents ! j)) \<le> 7"
      "p = (fst (cents ! i), fst (cents ! j))"
      unfolding aromatic_pairs_def using w by auto
    then have "(fst (cents ! i), snd (cents ! i)) \<in> set cents"
      "(fst (cents ! j), snd (cents ! j)) \<in> set cents"
      by simp_all
    then show "p \<in> ?R"
      using ij(3,4,5) by blast
  next
    fix p assume "p \<in> ?R"
    then obtain g1 c1 g2 c2 where p: "p = (g1, g2)" "(g1, c1) \<in> set cents" "(g2, c2) \<in> set cents"
      "4.5 \<le> euclidean c1 c2" "euclidean c1 c2 \<le> 7"
      by blast
    then obtain i j where "i < ?n" "cents ! i = (g1, c1)" "j < ?n" "cents ! j = (g2, c2)"
      by (auto simp: in_set_conv_nth)
    then have ij: "(i, j) \<in> set (np_where (\<lambda>d. (if 4.5 \<le> d \<and> d \<le> 7 then d else 0) > 0) D)"
      and pe: "(\<lambda>(r, c). (fst (cents ! r), fst (cents ! c))) (i, j) = p"
      using p w by auto
    have "(\<lambda>(r, c). (fst (cents ! r), fst (cents ! c))) (i, j) \<in>
        (\<lambda>(r, c). (fst (cents ! r), fst (cents ! c)))
          ` set (np_where (\<lambda>d. (if 4.5 \<le> d \<and> d \<le> 7 then d else 0) > 0) D)"
      using ij by (rule imageI)
    then show "p \<in> ?L"
      unfolding aromatic_pairs_def pe by simp
  qed
qed

text \<open>
  When the node identifier names the residue, a node has one centroid, so the two
  ends of an aromatic pair differ.
\<close>

lemma unique_ids_residue_name:
  assumes "unique_ids df" and "r \<in> set (map snd df)" and "s \<in> set (map snd df)"
    and "node_id r = node_id s"
  shows "residue r = residue s"
  using assms by (auto simp: unique_ids_def list_all_iff)

lemma ring_atoms_of_rows:
  assumes "r \<in> set (ring_atoms_of C df aa g)"
  shows "r \<in> set (map snd df) \<and> residue_name r = aa \<and> node_id r = g"
  using assms by (auto simp: ring_atoms_of_def split: option.splits)

lemma one_centroid:
  assumes u: "unique_ids df"
    and "ring_atoms_of C df aa g \<noteq> []" and "ring_atoms_of C df bb g \<noteq> []"
  shows "aa = bb"
proof -
  from assms(2) obtain r where r: "r \<in> set (ring_atoms_of C df aa g)"
    by (cases "ring_atoms_of C df aa g") auto
  from assms(3) obtain s where s: "s \<in> set (ring_atoms_of C df bb g)"
    by (cases "ring_atoms_of C df bb g") auto
  have "residue r = residue s"
    using unique_ids_residue_name [OF u] ring_atoms_of_rows [OF r] ring_atoms_of_rows [OF s]
    by simp
  then show ?thesis
    using ring_atoms_of_rows [OF r] ring_atoms_of_rows [OF s] by (simp add: residue_def)
qed

lemma aromatic_pairs_distinct:
  assumes u: "unique_ids df" and ps: "detector_pairs C df rgroup_df Aromatic = Inr ps"
    and p: "(g1, g2) \<in> set ps"
  shows "g1 \<noteq> g2"
proof
  assume same: "g1 = g2"
  from ps obtain cents D where cents: "aromatic_centroids C df = Inr cents"
    and D: "compute_distmat (map snd cents) = Inr D" and ps': "ps = aromatic_pairs cents D"
    by (auto simp: ebind_eq_Inr)
  from p obtain c1 c2 where c: "(g1, c1) \<in> set cents" "(g2, c2) \<in> set cents"
    "4.5 \<le> euclidean c1 c2"
    unfolding ps' aromatic_pairs_set [OF D] by blast
  from c(1,2) obtain aa bb where
    "ring_atoms_of C df aa g1 \<noteq> []" "c1 = centroid (ring_atoms_of C df aa g1)"
    "ring_atoms_of C df bb g2 \<noteq> []" "c2 = centroid (ring_atoms_of C df bb g2)"
    unfolding aromatic_centroids_mem [OF cents] by blast
  then have "c1 = c2"
    using one_centroid [OF u, of C aa g1 bb] same by auto
  then show False
    using c(3) by (simp add: euclidean_self)
qed

section \<open>No detector commits a pair of a node with itself\<close>

lemma threshold_pairs_distinct:
  "threshold_pairs df r = Inr ps \<Longrightarrow> (u, v) \<in> set ps \<Longrightarrow> u \<noteq> v"
  by (auto simp: threshold_pairs_def ebind_eq_Inr)

lemma typed_pairs_distinct:
  "typed_pairs df A B ps = Inr qs \<Longrightarrow> (u, v) \<in> set qs \<Longrightarrow> u \<noteq> v"
proof (induction ps arbitrary: qs)
  case Nil
  then show ?case by simp
next
  case (Cons p ps)
  obtain a1 a2 where p: "p = (a1, a2)" by (cases p)
  from Cons.prems(1) obtain r1 r2 qs' where
    "typed_pairs df A B ps = Inr qs'"
    "qs = (if ((r1 \<in> set A \<and> r2 \<in> set B) \<or> (r1 \<in> set B \<and> r2 \<in> set A)) \<and> r1 \<noteq> r2
           then (r1, r2) # qs' else qs')"
    by (auto simp: p ebind_eq_Inr)
  then show ?case
    using Cons.IH [of qs'] Cons.prems(2) by (auto split: if_splits)
qed

lemma detector_pairs_distinct:
  assumes "detector_pairs C df rgroup_df func = Inr ps" and "unique_ids df"
    and "(u, v) \<in> set ps"
  shows "u \<noteq> v"
proof (cases func)
  case Hydrophobic
  then show ?thesis
    using assms by (auto simp: ebind_eq_Inr dest: threshold_pairs_distinct)
next
  case Disulfide
  then show ?thesis
    using assms by (auto simp: ebind_eq_Inr dest: threshold_pairs_distinct)
next
  case HydrogenBond
  then show ?thesis
    using assms by (auto simp: ebind_eq_Inr dest: threshold_pairs_distinct)
next
  case Ionic
  then show ?thesis
    using assms by (auto simp: ebind_eq_Inr dest: threshold_pairs_distinct)
next
  case Aromatic
  then show ?thesis
    using assms aromatic_pairs_distinct by blast
next
  case AromaticSulphur
  then show ?thesis
    using assms by (auto simp: ebind_eq_Inr dest: typed_pairs_distinct)
next
  case CationPi
  then show ?thesis
    using assms by (auto simp: ebind_eq_Inr dest: typed_pairs_distinct)
qed

section \<open>Backbone construction\<close>

lemma store_aa_apply:
  "store_aa (c', p', a') m c p = (if c = c' \<and> p = p' then Some a' else m c p)"
  by (simp add: store_aa_def)

lemma mapping_fold_Some:
  "fold store_aa L m0 c p = Some a \<Longrightarrow> m0 c p = Some a \<or> (c, p, a) \<in> set L"
proof (induction L arbitrary: m0)
  case Nil
  then show ?case by simp
next
  case (Cons t L)
  obtain c' p' a' where t: "t = (c', p', a')" by (cases t)
  have "fold store_aa L (store_aa t m0) c p = Some a"
    using Cons.prems by simp
  from Cons.IH [OF this] have "store_aa t m0 c p = Some a \<or> (c, p, a) \<in> set L" .
  then show ?case
    unfolding t store_aa_apply by (auto split: if_splits)
qed

lemma mapping_fold_defined:
  "m0 c p \<noteq> None \<or> (\<exists>a. (c, p, a) \<in> set L) \<Longrightarrow> fold store_aa L m0 c p \<noteq> None"
proof (induction L arbitrary: m0)
  case Nil
  then show ?case by simp
next
  case (Cons t L)
  obtain c' p' a' where t: "t = (c', p', a')" by (cases t)
  have "store_aa t m0 c p \<noteq> None \<or> (\<exists>a. (c, p, a) \<in> set L)"
    unfolding t store_aa_apply using Cons.prems by (auto simp: t)
  then have "fold store_aa L (store_aa t m0) c p \<noteq> None"
    by (rule Cons.IH)
  then show ?case
    by simp
qed

lemma mapping_groups:
  "set (sort_key (\<lambda>(chain, pos, aa). (chain, sint pos, aa))
      (remdups (map (\<lambda>(i, r). (chain_id r, residue_number r, residue_name r)) pdb_df)))
    = residues pdb_df"
  by (force simp: residues_def residue_def image_iff)

lemma mapping_residue:
  "compute_chain_pos_aa_mapping pdb_df c p = Some a \<Longrightarrow> (c, p, a) \<in> residues pdb_df"
proof -
  assume "compute_chain_pos_aa_mapping pdb_df c p = Some a"
  then have "(\<lambda>chain. Map.empty) c p = Some a \<or> (c, p, a) \<in> residues pdb_df"
    unfolding compute_chain_pos_aa_mapping_def mapping_groups [symmetric]
    by (rule mapping_fold_Some)
  then show ?thesis by simp
qed

lemma mapping_defined:
  "(c, p, a) \<in> residues pdb_df \<Longrightarrow> \<exists>a'. compute_chain_pos_aa_mapping pdb_df c p = Some a'"
proof -
  assume "(c, p, a) \<in> residues pdb_df"
  then have "(\<lambda>chain. Map.empty) c p \<noteq> None \<or> (\<exists>a. (c, p, a) \<in>
      set (sort_key (\<lambda>(chain, pos, aa). (chain, sint pos, aa))
        (remdups (map (\<lambda>(i, r). (chain_id r, residue_number r, residue_name r)) pdb_df))))"
    unfolding mapping_groups by blast
  then have "compute_chain_pos_aa_mapping pdb_df c p \<noteq> None"
    unfolding compute_chain_pos_aa_mapping_def by (rule mapping_fold_defined)
  then show ?thesis by auto
qed

subsection \<open>The nodes\<close>

lemma add_node_cases:
  "(m, a) \<in> set (nodes (add_node G n d)) \<Longrightarrow> (m, a) \<in> set (nodes G) \<or> (m = n \<and> a = Some d)"
  by (auto simp: add_node_def split: if_splits)

lemma edges_add_node: "edges (add_node G n d) = edges G"
  by (simp add: add_node_def)

lemma has_node_add_node: "has_node (add_node G n d) m \<longleftrightarrow> m = n \<or> has_node G m"
proof (cases "has_node G n")
  case True
  have "map fst (map (\<lambda>(m, a). if m = n then (m, Some d) else (m, a)) xs) = map fst xs"
    for xs :: "(string \<times> node_data option) list"
    by (induction xs) auto
  then have "map fst (nodes (add_node G n d)) = map fst (nodes G)"
    using True by (simp add: add_node_def)
  then show ?thesis
    using True unfolding has_node_def by auto
next
  case False
  then show ?thesis
    by (auto simp: add_node_def has_node_def)
qed

lemma add_nodes_loop_result:
  assumes "add_nodes_loop G atoms gs = Inr G'"
  shows "edges G' = edges G"
    and "(m, a) \<in> set (nodes G') \<Longrightarrow> (m, a) \<in> set (nodes G)
      \<or> (\<exists>d. a = Some d
          \<and> (m, nd_chain_id d, nd_residue_number d, nd_residue_name d) \<in> set gs)"
    and "has_node G' m \<longleftrightarrow> has_node G m \<or> m \<in> fst ` set gs"
  using assms
proof (induction gs arbitrary: G)
  case Nil
  { case 1 then show ?case by simp
  next case 2 then show ?case by simp
  next case 3 then show ?case by simp }
next
  case (Cons g gs)
  obtain nid chain num name where g: "g = (nid, chain, num, name)" by (cases g)
  have step: "\<exists>d. nd_chain_id d = chain \<and> nd_residue_number d = num \<and> nd_residue_name d = name
      \<and> add_nodes_loop (add_node G nid d) atoms gs = Inr G'"
    if "add_nodes_loop G atoms (g # gs) = Inr G'" for G
  proof -
    from that obtain x y z where "add_nodes_loop
        (add_node G nid \<lparr>nd_chain_id = chain, nd_residue_number = num, nd_residue_name = name,
           nd_x_coord = x, nd_y_coord = y, nd_z_coord = z, nd_features = None\<rparr>) atoms gs = Inr G'"
      by (auto simp: g ebind_eq_Inr split: prod.splits)
    then show ?thesis
      by (intro exI [of _ "\<lparr>nd_chain_id = chain, nd_residue_number = num, nd_residue_name = name,
           nd_x_coord = x, nd_y_coord = y, nd_z_coord = z, nd_features = None\<rparr>"]) simp
  qed
  { case 1
    from step [OF 1] obtain d where "add_nodes_loop (add_node G nid d) atoms gs = Inr G'" by blast
    from Cons.IH(1) [OF this] show ?case by (simp add: edges_add_node)
  next
    case 2
    from step [OF 2(2)] obtain d where d: "nd_chain_id d = chain" "nd_residue_number d = num"
      "nd_residue_name d = name" and r: "add_nodes_loop (add_node G nid d) atoms gs = Inr G'"
      by blast
    from Cons.IH(2) [OF 2(1) r] show ?case
      using d by (auto simp: g dest!: add_node_cases)
  next
    case 3
    from step [OF 3] obtain d where "add_nodes_loop (add_node G nid d) atoms gs = Inr G'" by blast
    from Cons.IH(3) [OF this] show ?case
      by (auto simp: g has_node_add_node)
  }
qed

lemma add_nodes_result:
  assumes "add_nodes pdb_df = Inr G"
  shows "edges G = []"
    and "(m, a) \<in> set (nodes G) \<Longrightarrow>
      \<exists>d. a = Some d \<and> m = mk_node_id (nd_chain_id d) (nd_residue_number d) (nd_residue_name d)
        \<and> (nd_chain_id d, nd_residue_number d, nd_residue_name d) \<in> atom_residues pdb_df"
    and "(c, p, x) \<in> atom_residues pdb_df \<Longrightarrow> has_node G (mk_node_id c p x)"
proof -
  let ?atoms = "filter (\<lambda>r. record_name r = ''ATOM'') (map snd pdb_df)"
  let ?gs = "sort_key (\<lambda>(nid, chain, num, name). (nid, chain, sint num, name))
      (remdups (map (\<lambda>r. (node_id r, chain_id r, residue_number r, residue_name r)) ?atoms))"
  have loop: "add_nodes_loop empty_graph ?atoms ?gs = Inr G"
    using assms by (simp add: add_nodes_def Let_def)
  have gs: "set ?gs = (\<lambda>r. (node_id r, chain_id r, residue_number r, residue_name r)) ` set ?atoms"
    by simp
  show "edges G = []"
    using add_nodes_loop_result(1) [OF loop] by (simp add: empty_graph_def)
  show "\<exists>d. a = Some d \<and> m = mk_node_id (nd_chain_id d) (nd_residue_number d) (nd_residue_name d)
        \<and> (nd_chain_id d, nd_residue_number d, nd_residue_name d) \<in> atom_residues pdb_df"
    if "(m, a) \<in> set (nodes G)"
  proof -
    from add_nodes_loop_result(2) [OF loop that] obtain d where d: "a = Some d"
      "(m, nd_chain_id d, nd_residue_number d, nd_residue_name d) \<in> set ?gs"
      by (auto simp: empty_graph_def)
    from d(2) obtain r where r: "r \<in> set ?atoms" "m = node_id r" "nd_chain_id d = chain_id r"
      "nd_residue_number d = residue_number r" "nd_residue_name d = residue_name r"
      unfolding gs by auto
    have "residue r \<in> atom_residues pdb_df"
      using r(1) by (auto simp: atom_residues_def)
    then show ?thesis
      using d(1) r by (simp add: node_id_def residue_def)
  qed
  show "has_node G (mk_node_id c p x)" if "(c, p, x) \<in> atom_residues pdb_df"
  proof -
    have "(c, p, x) \<in> residue ` {r \<in> set (map snd pdb_df). record_name r = ''ATOM''}"
      using that unfolding atom_residues_def .
    then obtain r where "(c, p, x) = residue r"
      "r \<in> {r \<in> set (map snd pdb_df). record_name r = ''ATOM''}"
      by (rule imageE)
    then have r: "r \<in> set ?atoms" "residue r = (c, p, x)"
      by simp_all
    let ?key = "\<lambda>r. (node_id r, chain_id r, residue_number r, residue_name r)"
    have "?key r \<in> ?key ` set ?atoms"
      using r(1) by (rule imageI)
    then have "?key r \<in> set ?gs"
      unfolding gs .
    then have "fst (?key r) \<in> fst ` set ?gs"
      by (rule imageI)
    then have mem: "node_id r \<in> fst ` set ?gs"
      by simp
    have "has_node G (node_id r) \<longleftrightarrow> has_node empty_graph (node_id r) \<or> node_id r \<in> fst ` set ?gs"
      by (rule add_nodes_loop_result(3) [OF loop])
    then have "has_node G (node_id r)"
      using mem by blast
    moreover have "node_id r = mk_node_id c p x"
      using r(2) by (simp add: node_id_def residue_def)
    ultimately show ?thesis
      by simp
  qed
qed

subsection \<open>The links\<close>

lemma backbone_link_cases:
  assumes "backbone_link C m G n chain q aa = Inr G'"
  shows "G' = G \<or> (\<exists>y. m chain q = Some y \<and> aa \<in> set (RESI_NAMES C) \<and> y \<in> set (RESI_NAMES C)
      \<and> has_node G (mk_node_id chain q y)
      \<and> G' = add_edge G n (mk_node_id chain q y) {''backbone''})"
  using assms by (auto simp: backbone_link_def Let_def split: option.splits if_splits)

lemma backbone_link_done:
  assumes "backbone_link C m G n chain q aa = Inr G'" and "m chain q = Some y"
    and "aa \<in> set (RESI_NAMES C)" and "y \<in> set (RESI_NAMES C)"
  shows "edge_kind G' n (mk_node_id chain q y) = Some {''backbone''}"
  using assms
  by (auto simp: backbone_link_def Let_def edge_kind_add_edge edge_is_def split: if_splits)

lemma nodes_add_edge:
  "has_node G u \<Longrightarrow> has_node G v \<Longrightarrow> nodes (add_edge G u v ks) = nodes G"
  by (simp add: add_edge_def Let_def touch_node_def has_node_def)

text \<open>A property that every link keeps is kept by the loop.\<close>

lemma backbone_loop_invariant:
  assumes loop: "backbone_loop C m G ns = Inr G'" and start: "P G"
    and step: "\<And>H n d q y. P H \<Longrightarrow> (n, Some d) \<in> set ns
      \<Longrightarrow> q = nd_residue_number d - 1 \<or> q = nd_residue_number d + 1
      \<Longrightarrow> m (nd_chain_id d) q = Some y
      \<Longrightarrow> nd_residue_name d \<in> set (RESI_NAMES C) \<Longrightarrow> y \<in> set (RESI_NAMES C)
      \<Longrightarrow> has_node H (mk_node_id (nd_chain_id d) q y)
      \<Longrightarrow> P (add_edge H n (mk_node_id (nd_chain_id d) q y) {''backbone''})"
  shows "P G'"
  using loop start step
proof (induction ns arbitrary: G)
  case Nil
  then show ?case by simp
next
  case (Cons nd ns)
  obtain n a where nd: "nd = (n, a)" by (cases nd)
  from Cons.prems(1) obtain d where a: "a = Some d"
    by (cases a) (auto simp: nd)
  from Cons.prems(1) obtain G1 G2 where
    l1: "backbone_link C m G n (nd_chain_id d) (nd_residue_number d - 1) (nd_residue_name d) = Inr G1"
    and l2: "backbone_link C m G1 n (nd_chain_id d) (nd_residue_number d + 1) (nd_residue_name d)
      = Inr G2"
    and rest: "backbone_loop C m G2 ns = Inr G'"
    by (auto simp: nd a Let_def ebind_eq_Inr)
  have here: "(n, Some d) \<in> set (nd # ns)"
    by (simp add: nd a)
  have "P G1"
    using backbone_link_cases [OF l1] Cons.prems(2) Cons.prems(3) [OF _ here] by auto
  then have "P G2"
    using backbone_link_cases [OF l2] Cons.prems(3) [OF _ here] by auto
  then show ?case
    using Cons.IH [OF rest] Cons.prems(3) by auto
qed

lemma backbone_loop_done:
  assumes "backbone_loop C m G ns = Inr G'" and "(n, Some d) \<in> set ns"
    and "q = nd_residue_number d - 1 \<or> q = nd_residue_number d + 1"
    and "m (nd_chain_id d) q = Some y"
    and "nd_residue_name d \<in> set (RESI_NAMES C)" and "y \<in> set (RESI_NAMES C)"
  shows "edge_kind G' n (mk_node_id (nd_chain_id d) q y) = Some {''backbone''}"
  using assms(1,2)
proof (induction ns arbitrary: G)
  case Nil
  then show ?case by simp
next
  case (Cons nd ns)
  let ?o = "mk_node_id (nd_chain_id d) q y"
  have keep: "edge_kind (add_edge H u v {''backbone''}) n ?o = Some {''backbone''}"
    if "edge_kind H n ?o = Some {''backbone''}" for H u v
    using that by (simp add: edge_kind_add_edge)
  obtain n' a where nd: "nd = (n', a)" by (cases nd)
  from Cons.prems(1) obtain d' where a: "a = Some d'"
    by (cases a) (auto simp: nd)
  from Cons.prems(1) obtain G1 G2 where
    l1: "backbone_link C m G n' (nd_chain_id d') (nd_residue_number d' - 1) (nd_residue_name d')
      = Inr G1"
    and l2: "backbone_link C m G1 n' (nd_chain_id d') (nd_residue_number d' + 1) (nd_residue_name d')
      = Inr G2"
    and rest: "backbone_loop C m G2 ns = Inr G'"
    by (auto simp: nd a Let_def ebind_eq_Inr)
  show ?case
  proof (cases "(n, Some d) \<in> set ns")
    case True
    then show ?thesis using Cons.IH [OF rest] by simp
  next
    case False
    then have same: "n' = n" "d' = d"
      using Cons.prems(2) by (auto simp: nd a)
    have "edge_kind G2 n ?o = Some {''backbone''}"
    proof (cases "q = nd_residue_number d - 1")
      case True
      have "edge_kind G1 n ?o = Some {''backbone''}"
        using backbone_link_done [OF l1 [unfolded same]] assms(4,5,6) True by simp
      then show ?thesis
        using backbone_link_cases [OF l2] keep by (auto simp: same)
    next
      case False
      then have "q = nd_residue_number d + 1" using assms(3) by simp
      then show ?thesis
        using backbone_link_done [OF l2 [unfolded same]] assms(4,5,6) by simp
    qed
    then show ?thesis
      using backbone_loop_invariant [OF rest, of "\<lambda>H. edge_kind H n ?o = Some {''backbone''}"] keep
      by simp
  qed
qed

section \<open>The edge invariant\<close>

lemma edge_invariant_iff:
  assumes "wf_edges G"
  shows "edge_invariant G \<longleftrightarrow> kinds_ok G"
proof
  assume inv: "edge_invariant G"
  show "kinds_ok G"
    unfolding kinds_ok_def
  proof (intro allI impI)
    fix a b K assume "edge_kind G a b = Some K"
    then obtain d where d: "edge_attrs G a b = Some d" "K = kind d"
      by (auto simp: edge_kind_def)
    from lookup_entry [OF d(1)] obtain key where key: "(key, d) \<in> set (edges G)" "edge_is a b key"
      by blast
    obtain u v where uv: "key = (u, v)" by (cases key)
    have "edge_ok ((u, v), d)"
      using inv key(1) by (auto simp: edge_invariant_def list_all_iff uv)
    then show "a \<noteq> b \<and> K \<noteq> {} \<and> K \<subseteq> set BOND_TYPES"
      using key(2) by (auto simp: edge_ok_def uv d(2) edge_is_def)
  qed
next
  assume ok: "kinds_ok G"
  show "edge_invariant G"
    unfolding edge_invariant_def list_all_iff
  proof
    fix e assume e: "e \<in> set (edges G)"
    obtain u v d where uvd: "e = ((u, v), d)" by (metis prod.collapse)
    have "edge_attrs G u v = Some d"
      using assms e by (simp add: uvd wf_entry_lookup)
    then have "edge_kind G u v = Some (kind d)"
      by (simp add: edge_kind_def)
    then show "edge_ok e"
      using ok by (simp add: kinds_ok_def edge_ok_def uvd)
  qed
qed

lemma labels_ok: "kinds_ok G \<Longrightarrow> labels G a b \<subseteq> set BOND_TYPES"
  by (auto simp: kinds_ok_def labels_def split: option.splits)

lemma kinds_ok_commit_list:
  assumes "kinds_ok G" and "\<And>u v. (u, v) \<in> set ps \<Longrightarrow> u \<noteq> v"
    and "ks \<noteq> []" and "set ks \<subseteq> set BOND_TYPES"
  shows "kinds_ok (commit_list G ks ps)"
  unfolding kinds_ok_def
proof (intro allI impI)
  fix a b K assume k: "edge_kind (commit_list G ks ps) a b = Some K"
  show "a \<noteq> b \<and> K \<noteq> {} \<and> K \<subseteq> set BOND_TYPES"
  proof (cases "\<exists>p \<in> set ps. edge_is a b p")
    case True
    then obtain u v where "(u, v) \<in> set ps" "edge_is a b (u, v)" by auto
    then have "a \<noteq> b"
      using assms(2) [of u v] by (auto simp: edge_is_def)
    moreover have "K = labels G a b \<union> set ks"
      using k True by (simp add: edge_kind_commit_list)
    ultimately show ?thesis
      using labels_ok [OF assms(1), of a b] assms(3,4) by auto
  next
    case False
    then have "edge_kind G a b = Some K"
      using k by (simp add: edge_kind_commit_list)
    then show ?thesis
      using assms(1) by (simp add: kinds_ok_def)
  qed
qed

lemma label_in_vocabulary: "label func \<in> set BOND_TYPES"
  by (cases func) (simp_all add: BOND_TYPES_def)

lemma detector_commits:
  assumes "run_detector C df rgroup_df func G = Inr G'" and "func \<noteq> Ionic"
  shows "\<exists>ps. detector_pairs C df rgroup_df func = Inr ps \<and> G' = commit_list G [label func] ps"
proof -
  from assms(1) obtain ps where ps: "detector_pairs C df rgroup_df func = Inr ps"
    and fin: "finish C func G ps = Inr G'"
    unfolding run_detector_finish by (auto simp: ebind_eq_Inr)
  have "G' = commit_list G [label func] ps"
    using fin assms(2) by (cases func) (simp_all add: aromatic_loop_result)
  then show ?thesis
    using ps by blast
qed

lemma detector_keeps_invariant:
  assumes run: "run_detector C df rgroup_df func G = Inr G'"
    and u: "unique_ids df" and wf: "wf_edges G" and ok: "kinds_ok G"
  shows "wf_edges G' \<and> kinds_ok G'"
proof (cases "func = Ionic")
  case False
  from detector_commits [OF run False] obtain ps where
    ps: "detector_pairs C df rgroup_df func = Inr ps" and G': "G' = commit_list G [label func] ps"
    by blast
  have "kinds_ok G'"
    unfolding G'
    by (rule kinds_ok_commit_list [OF ok])
      (use detector_pairs_distinct [OF ps u] label_in_vocabulary in auto)
  then show ?thesis
    using wf by (simp add: G' wf_commit_list)
next
  case True
  have run': "add_ionic_interactions C rgroup_df G = Inr G'"
    using run True by simp
  from add_ionic_interactions_result [OF run' wf, of df] obtain ps where
    ps: "detector_pairs C df rgroup_df Ionic = Inr ps"
    and wf': "wf_edges G'"
    and kinds: "\<And>a b. edge_kind G' a b =
          (let x = (if \<exists>p \<in> set ps. edge_is a b p then Some (insert ''ionic'' (labels G a b))
                    else edge_kind G a b)
           in if (case x of None \<Rightarrow> False | Some K \<Rightarrow> ''ionic'' \<in> K) \<and> \<not> charged_pair C G a b
              then strip_ionic x else x)"
    by blast
  have "a \<noteq> b \<and> K \<noteq> {} \<and> K \<subseteq> set BOND_TYPES" if k: "edge_kind G' a b = Some K" for a b K
  proof -
    let ?x = "if \<exists>p \<in> set ps. edge_is a b p then Some (insert ''ionic'' (labels G a b))
        else edge_kind G a b"
    have x: "\<exists>K0. ?x = Some K0 \<and> a \<noteq> b \<and> K0 \<noteq> {} \<and> K0 \<subseteq> set BOND_TYPES
        \<and> (K = K0 \<or> (K = K0 - {''ionic''} \<and> K \<noteq> {}))"
    proof (cases "(case ?x of None \<Rightarrow> False | Some K \<Rightarrow> ''ionic'' \<in> K) \<and> \<not> charged_pair C G a b")
      case True
      then have s: "strip_ionic ?x = Some K"
        using kinds [of a b] k by (simp add: Let_def)
      then obtain K0 where K0: "?x = Some K0" "K = K0 - {''ionic''}" "K \<noteq> {}"
        by (cases ?x) (auto simp: strip_ionic_def split: if_splits)
      have "a \<noteq> b \<and> K0 \<noteq> {} \<and> K0 \<subseteq> set BOND_TYPES"
      proof (cases "\<exists>p \<in> set ps. edge_is a b p")
        case True
        then obtain u v where "(u, v) \<in> set ps" "edge_is a b (u, v)" by auto
        then have "a \<noteq> b"
          using detector_pairs_distinct [OF ps u, of u v] by (auto simp: edge_is_def)
        moreover have "K0 = insert ''ionic'' (labels G a b)"
          using K0(1) True by simp
        ultimately show ?thesis
          using labels_ok [OF ok, of a b] by (auto simp: BOND_TYPES_def)
      next
        case False
        then have "edge_kind G a b = Some K0" using K0(1) by simp
        then show ?thesis using ok by (simp add: kinds_ok_def)
      qed
      then show ?thesis using K0 by blast
    next
      case False
      then have K0: "?x = Some K"
        using kinds [of a b] k by (auto simp: Let_def)
      have "a \<noteq> b \<and> K \<noteq> {} \<and> K \<subseteq> set BOND_TYPES"
      proof (cases "\<exists>p \<in> set ps. edge_is a b p")
        case True
        then obtain u v where "(u, v) \<in> set ps" "edge_is a b (u, v)" by auto
        then have "a \<noteq> b"
          using detector_pairs_distinct [OF ps u, of u v] by (auto simp: edge_is_def)
        moreover have "K = insert ''ionic'' (labels G a b)"
          using K0 True by simp
        ultimately show ?thesis
          using labels_ok [OF ok, of a b] by (auto simp: BOND_TYPES_def)
      next
        case False
        then have "edge_kind G a b = Some K" using K0 by simp
        then show ?thesis using ok by (simp add: kinds_ok_def)
      qed
      then show ?thesis using K0 by blast
    qed
    then show ?thesis by auto
  qed
  then have "kinds_ok G'"
    by (simp add: kinds_ok_def)
  then show ?thesis
    using wf' by simp
qed

section \<open>The graph after backbone construction\<close>

lemma atom_residues_subset: "atom_residues pdb_df \<subseteq> residues pdb_df"
  by (auto simp: atom_residues_def residues_def)

lemma residues_node_id:
  assumes "(c, p, x) \<in> residues pdb_df"
  shows "\<exists>r \<in> set (map snd pdb_df). residue r = (c, p, x) \<and> node_id r = mk_node_id c p x"
proof -
  have "(c, p, x) \<in> residue ` set (map snd pdb_df)"
    using assms unfolding residues_def .
  then obtain r where r: "(c, p, x) = residue r" "r \<in> set (map snd pdb_df)"
    by (rule imageE)
  then have "node_id r = mk_node_id c p x"
    by (simp add: node_id_def residue_def)
  then show ?thesis
    using r by auto
qed

lemma seq_adjacent_distinct:
  assumes u: "unique_ids pdb_df" and adj: "seq_adjacent C pdb_df a b"
  shows "a \<noteq> b"
proof
  assume "a = b"
  from adj obtain c p x y where r: "(c, p, x) \<in> residues pdb_df" "(c, p + 1, y) \<in> residues pdb_df"
    and e: "edge_is a b (mk_node_id c p x, mk_node_id c (p + 1) y)"
    unfolding seq_adjacent_def by blast
  from residues_node_id [OF r(1)] obtain r1 where r1: "r1 \<in> set (map snd pdb_df)"
    "residue r1 = (c, p, x)" "node_id r1 = mk_node_id c p x" by blast
  from residues_node_id [OF r(2)] obtain r2 where r2: "r2 \<in> set (map snd pdb_df)"
    "residue r2 = (c, p + 1, y)" "node_id r2 = mk_node_id c (p + 1) y" by blast
  have "node_id r1 = node_id r2"
    using e \<open>a = b\<close> by (auto simp: edge_is_def r1(3) r2(3))
  then have "residue r1 = residue r2"
    using unique_ids_residue_name [OF u r1(1) r2(1)] by simp
  then show False
    by (simp add: r1(2) r2(2))
qed

lemma backbone_graph_result:
  assumes run: "backbone_graph C pdb_df (compute_chain_pos_aa_mapping pdb_df) = Inr G"
  shows "wf_edges G"
    and "edge_kind G a b = Some K \<Longrightarrow> K = {''backbone''} \<and> seq_adjacent C pdb_df a b"
proof -
  let ?m = "compute_chain_pos_aa_mapping pdb_df"
  from run obtain G0 where G0: "add_nodes pdb_df = Inr G0"
    and loop: "backbone_loop C ?m G0 (nodes G0) = Inr G"
    by (auto simp: backbone_graph_def ebind_eq_Inr)
  let ?P = "\<lambda>H. wf_edges H \<and> nodes H = nodes G0
      \<and> (\<forall>a b K. edge_kind H a b = Some K \<longrightarrow> K = {''backbone''} \<and> seq_adjacent C pdb_df a b)"
  have start: "?P G0"
    using add_nodes_result(1) [OF G0]
    by (simp add: wf_edges_def edge_kind_def edge_attrs_def)
  have step: "?P (add_edge H n (mk_node_id (nd_chain_id d) q y) {''backbone''})"
    if P: "?P H" and nd: "(n, Some d) \<in> set (nodes G0)"
      and q: "q = nd_residue_number d - 1 \<or> q = nd_residue_number d + 1"
      and m: "?m (nd_chain_id d) q = Some y"
      and aa: "nd_residue_name d \<in> set (RESI_NAMES C)" and y: "y \<in> set (RESI_NAMES C)"
      and other: "has_node H (mk_node_id (nd_chain_id d) q y)"
    for H n d q y
  proof -
    let ?o = "mk_node_id (nd_chain_id d) q y"
    from add_nodes_result(2) [OF G0 nd] have
      n: "n = mk_node_id (nd_chain_id d) (nd_residue_number d) (nd_residue_name d)"
      and res: "(nd_chain_id d, nd_residue_number d, nd_residue_name d) \<in> residues pdb_df"
      using atom_residues_subset by auto
    have res': "(nd_chain_id d, q, y) \<in> residues pdb_df"
      using m by (rule mapping_residue)
    have "has_node H n"
      using P nd by (force simp: has_node_def)
    then have nodes: "nodes (add_edge H n ?o {''backbone''}) = nodes G0"
      using other P by (simp add: nodes_add_edge)
    have adj: "seq_adjacent C pdb_df a b" if "edge_is a b (n, ?o)" for a b
    proof (cases "q = nd_residue_number d + 1")
      case True
      then show ?thesis
        unfolding seq_adjacent_def
        using res res' aa y that n by blast
    next
      case False
      then have q': "nd_residue_number d = q + 1" using q by simp
      have "edge_is a b (?o, n)"
        using that by (auto simp: edge_is_def)
      then have "edge_is a b (mk_node_id (nd_chain_id d) q y,
          mk_node_id (nd_chain_id d) (q + 1) (nd_residue_name d))"
        by (simp add: n q')
      moreover have "(nd_chain_id d, q + 1, nd_residue_name d) \<in> residues pdb_df"
        using res by (simp add: q')
      ultimately show ?thesis
        unfolding seq_adjacent_def using res' aa y by blast
    qed
    show ?thesis
      using P nodes adj by (auto simp: wf_add_edge edge_kind_add_edge)
  qed
  have "?P G"
    by (rule backbone_loop_invariant [OF loop, of ?P, OF start step])
  then show "wf_edges G"
    and "edge_kind G a b = Some K \<Longrightarrow> K = {''backbone''} \<and> seq_adjacent C pdb_df a b"
    by blast+
qed

text \<open>
  Claim C8. In every graph state of a run (after backbone construction, and after any
  detector has returned) every stored edge joins two different nodes and its kind set is
  a non-empty subset of the bond vocabulary. The atom table satisfies its input contract:
  a node identifier names one residue.
\<close>

theorem edge_invariant_reachable:
  assumes "reachable C pdb_df G" and "unique_ids pdb_df"
  shows "edge_invariant G"
proof -
  have "wf_edges G \<and> kinds_ok G"
    using assms(1)
  proof (induction rule: reachable.induct)
    case (backbone G)
    have "kinds_ok G"
      unfolding kinds_ok_def
    proof (intro allI impI)
      fix a b K assume "edge_kind G a b = Some K"
      from backbone_graph_result(2) [OF backbone this]
      have K: "K = {''backbone''}" and adj: "seq_adjacent C pdb_df a b" by simp_all
      have "a \<noteq> b"
        using assms(2) adj by (rule seq_adjacent_distinct)
      then show "a \<noteq> b \<and> K \<noteq> {} \<and> K \<subseteq> set BOND_TYPES"
        by (simp add: K BOND_TYPES_def)
    qed
    then show ?case
      using backbone_graph_result(1) [OF backbone] by simp
  next
    case (detector G rgroup_df func G')
    then show ?case
      using detector_keeps_invariant [OF detector(3) assms(2)] by simp
  qed
  then show ?thesis
    by (simp add: edge_invariant_iff)
qed

lemma node_id_atm: "node_id (atm a res chain num x y z) = chain @ str_int (sint num) @ res"
  by (simp add: node_id_def mk_node_id_def atm_def)

lemma residue_atm: "residue (atm a res chain num x y z) = (chain, num, res)"
  by (simp add: residue_def atm_def)

lemma str_int_example:
  "str_int 1 = ''1''" "str_int 2 = ''2''" "str_int 3 = ''3''" "str_int 4 = ''4''"
  "str_int 5 = ''5''" "str_int 6 = ''6''"
  by (simp_all add: str_int_def str_nat.simps digit_char_def)

lemma example_unique_ids: "unique_ids example_pdb"
  by (simp add: unique_ids_def example_pdb_def upt_conv_Cons node_id_atm residue_atm
      str_int_example)

lemma example_backbone_reachable: "reachable example_resi_atoms example_pdb example_backbone"
  by (rule reachable.backbone) (rule example_backbone_eq)

lemma example_ionic_reachable: "reachable example_resi_atoms example_pdb example_ionic"
proof -
  have "run_detector example_resi_atoms example_pdb example_rgroup Ionic example_backbone
      = Inr example_ionic"
    using example_ionic_eq by simp
  then show ?thesis
    by (rule reachable.detector [OF example_backbone_reachable example_rgroup_eq])
qed

theorem edge_invariant_reachable_witness:
  "reachable example_resi_atoms example_pdb example_ionic \<and> unique_ids example_pdb
   \<and> edge_invariant example_ionic"
  using example_ionic_reachable example_unique_ids
    edge_invariant_reachable [OF example_ionic_reachable example_unique_ids]
  by simp

section \<open>Labels that a detector does not touch\<close>

lemma has_label_commit_list:
  "k \<notin> set ks \<Longrightarrow> has_label (commit_list G ks ps) a b k = has_label G a b k"
  by (auto simp: has_label_def edge_kind_commit_list labels_def split: option.splits)

lemma detector_keeps_wf:
  assumes "run_detector C df rgroup_df func G = Inr G'" and "wf_edges G"
  shows "wf_edges G'"
proof (cases "func = Ionic")
  case False
  from detector_commits [OF assms(1) False] show ?thesis
    using assms(2) by (auto simp: wf_commit_list)
next
  case True
  then have "add_ionic_interactions C rgroup_df G = Inr G'"
    using assms(1) by simp
  from add_ionic_interactions_result [OF this assms(2), of df] show ?thesis
    by blast
qed

lemma detector_label_frame:
  assumes run: "run_detector C df rgroup_df func G = Inr G'" and wf: "wf_edges G"
    and k: "k \<noteq> label func"
  shows "has_label G' a b k = has_label G a b k"
proof (cases "func = Ionic")
  case False
  from detector_commits [OF run False] show ?thesis
    using k by (auto simp: has_label_commit_list)
next
  case True
  then have run': "add_ionic_interactions C rgroup_df G = Inr G'"
    using run by simp
  from add_ionic_interactions_result [OF run' wf, of df] obtain ps where
    kinds: "\<And>a b. edge_kind G' a b =
          (let x = (if \<exists>p \<in> set ps. edge_is a b p then Some (insert ''ionic'' (labels G a b))
                    else edge_kind G a b)
           in if (case x of None \<Rightarrow> False | Some K \<Rightarrow> ''ionic'' \<in> K) \<and> \<not> charged_pair C G a b
              then strip_ionic x else x)"
    by blast
  have k': "k \<noteq> ''ionic''"
    using k True by simp
  show ?thesis
    unfolding has_label_def kinds [of a b]
    using k'
    by (auto simp: Let_def strip_ionic_def labels_def split: option.splits if_splits)
qed

lemma reachable_wf: "reachable C pdb_df G \<Longrightarrow> wf_edges G"
proof (induction rule: reachable.induct)
  case (backbone G)
  then show ?case by (rule backbone_graph_result(1))
next
  case (detector G rgroup_df func G')
  then show ?case using detector_keeps_wf by blast
qed

lemma label_not_backbone: "''backbone'' \<noteq> label func"
  by (cases func) simp_all

text \<open>The backbone labels of every graph state are those of the backbone graph.\<close>

lemma reachable_backbone_labels:
  assumes "reachable C pdb_df G"
  shows "\<exists>G0. backbone_graph C pdb_df (compute_chain_pos_aa_mapping pdb_df) = Inr G0
    \<and> (\<forall>a b. has_label G a b ''backbone'' = has_label G0 a b ''backbone'')"
  using assms
proof (induction rule: reachable.induct)
  case (backbone G)
  then show ?case by simp
next
  case (detector G rgroup_df func G')
  have "has_label G' a b ''backbone'' = has_label G a b ''backbone''" for a b
    using detector(3) reachable_wf [OF detector(1)] label_not_backbone
    by (rule detector_label_frame)
  then show ?case
    using detector.IH by simp
qed

section \<open>Backbone connectivity\<close>

lemma backbone_graph_node:
  assumes run: "backbone_graph C pdb_df m = Inr G" and u: "unique_ids pdb_df"
    and res: "(c, p, x) \<in> atom_residues pdb_df"
  shows "\<exists>G0 d. add_nodes pdb_df = Inr G0 \<and> backbone_loop C m G0 (nodes G0) = Inr G
    \<and> (mk_node_id c p x, Some d) \<in> set (nodes G0)
    \<and> nd_chain_id d = c \<and> nd_residue_number d = p \<and> nd_residue_name d = x"
proof -
  from run obtain G0 where G0: "add_nodes pdb_df = Inr G0"
    and loop: "backbone_loop C m G0 (nodes G0) = Inr G"
    by (auto simp: backbone_graph_def ebind_eq_Inr)
  have "has_node G0 (mk_node_id c p x)"
    using G0 res by (rule add_nodes_result(3))
  then obtain a where a: "(mk_node_id c p x, a) \<in> set (nodes G0)"
    by (auto simp: has_node_def)
  from add_nodes_result(2) [OF G0 a] obtain d where d: "a = Some d"
    "mk_node_id c p x = mk_node_id (nd_chain_id d) (nd_residue_number d) (nd_residue_name d)"
    "(nd_chain_id d, nd_residue_number d, nd_residue_name d) \<in> atom_residues pdb_df"
    by blast
  from residues_node_id [of c p x pdb_df] res atom_residues_subset obtain r1 where
    r1: "r1 \<in> set (map snd pdb_df)" "residue r1 = (c, p, x)" "node_id r1 = mk_node_id c p x"
    by blast
  from residues_node_id [of "nd_chain_id d" "nd_residue_number d" "nd_residue_name d" pdb_df]
    d(3) atom_residues_subset obtain r2 where
    r2: "r2 \<in> set (map snd pdb_df)"
      "residue r2 = (nd_chain_id d, nd_residue_number d, nd_residue_name d)"
      "node_id r2 = mk_node_id (nd_chain_id d) (nd_residue_number d) (nd_residue_name d)"
    by blast
  have "residue r1 = residue r2"
    using unique_ids_residue_name [OF u r1(1) r2(1)] r1(3) r2(3) d(2) by simp
  then have "nd_chain_id d = c \<and> nd_residue_number d = p \<and> nd_residue_name d = x"
    by (simp add: r1(2) r2(2))
  then show ?thesis
    using G0 loop a d(1) by blast
qed

lemma backbone_graph_links:
  assumes run: "backbone_graph C pdb_df m = Inr G" and u: "unique_ids pdb_df"
    and r1: "(c, p, x) \<in> atom_residues pdb_df" and r2: "(c, p + 1, y) \<in> atom_residues pdb_df"
    and x: "x \<in> set (RESI_NAMES C)" and y: "y \<in> set (RESI_NAMES C)"
    and rec: "m c p = Some x \<or> m c (p + 1) = Some y"
  shows "has_label G (mk_node_id c p x) (mk_node_id c (p + 1) y) ''backbone''"
proof -
  have "edge_kind G (mk_node_id c p x) (mk_node_id c (p + 1) y) = Some {''backbone''}"
  proof (cases "m c (p + 1) = Some y")
    case True
    from backbone_graph_node [OF run u r1] obtain G0 d where
      loop: "backbone_loop C m G0 (nodes G0) = Inr G"
      and n: "(mk_node_id c p x, Some d) \<in> set (nodes G0)"
      and d: "nd_chain_id d = c" "nd_residue_number d = p" "nd_residue_name d = x"
      by blast
    from backbone_loop_done [OF loop n, of "p + 1" y] True x y d
    show ?thesis by simp
  next
    case False
    then have m: "m c p = Some x" using rec by simp
    from backbone_graph_node [OF run u r2] obtain G0 d where
      loop: "backbone_loop C m G0 (nodes G0) = Inr G"
      and n: "(mk_node_id c (p + 1) y, Some d) \<in> set (nodes G0)"
      and d: "nd_chain_id d = c" "nd_residue_number d = p + 1" "nd_residue_name d = y"
      by blast
    from backbone_loop_done [OF loop n, of p x] m x y d
    have "edge_kind G (mk_node_id c (p + 1) y) (mk_node_id c p x) = Some {''backbone''}"
      by simp
    then show ?thesis
      using edge_kind_sym [of G "mk_node_id c p x" "mk_node_id c (p + 1) y"] by simp
  qed
  then show ?thesis
    by (simp add: has_label_def)
qed

text \<open>The successor of a 64-bit integer: the next integer, or the first after the last.\<close>

lemma sint_succ:
  "sint (p + 1 :: int64)
    = (if sint p = 9223372036854775807 then - 9223372036854775808 else sint p + 1)"
proof -
  have r: "- 9223372036854775808 \<le> sint p" "sint p \<le> 9223372036854775807"
    using sint_ge [of p] sint_lt [of p] by simp_all
  show ?thesis
  proof (cases "sint p = 9223372036854775807")
    case True
    then have "sint p = sint (9223372036854775807 :: int64)"
      by simp
    then have "p = 9223372036854775807"
      by (rule signed_word_eqI)
    then show ?thesis by simp
  next
    case False
    then have "sint p + 1 \<le> 9223372036854775807" using r by simp
    then have "signed_take_bit 63 (sint p + 1) = sint p + 1"
      using r by (simp add: signed_take_bit_int_eq_self)
    then show ?thesis
      using False by (simp add: sint_word_ariths)
  qed
qed

lemma successor_iff: "q = p + 1 \<longleftrightarrow> follows p q \<or> ends_of_range p q"
proof
  assume "q = p + 1"
  then show "follows p q \<or> ends_of_range p q"
    by (simp add: follows_def ends_of_range_def sint_succ)
next
  assume a: "follows p q \<or> ends_of_range p q"
  have r: "sint q \<le> 9223372036854775807"
    using sint_lt [of q] by simp
  have "sint q = sint (p + 1)"
    using a r by (auto simp: follows_def ends_of_range_def sint_succ)
  then show "q = p + 1"
    by (rule signed_word_eqI)
qed

text \<open>
  Claim C7, as amended. In every graph state of a run, on an atom table that satisfies
  its input contract: two residues of one chain, the second at the position after the
  first, both with atoms of record type \<^verbatim>\<open>ATOM\<close> and both in \<^verbatim>\<open>RESI_NAMES\<close>, are joined
  by an edge labelled \<^verbatim>\<open>backbone\<close> whenever at least one of them is the residue type
  that the chain-position mapping records at its position (which is always so when no
  position carries two residue types); and every edge labelled \<^verbatim>\<open>backbone\<close> joins two
  residues of one chain, both in \<^verbatim>\<open>RESI_NAMES\<close>, the second at the position after the
  first, or the first at position \<open>2\<^sup>6\<^sup>3 - 1\<close> and the second at position \<open>- 2\<^sup>6\<^sup>3\<close>.
\<close>

theorem backbone_connectivity:
  assumes "reachable C pdb_df G" and "unique_ids pdb_df"
  shows "(\<forall>c p q x y.
            (c, p, x) \<in> atom_residues pdb_df \<and> (c, q, y) \<in> atom_residues pdb_df
            \<and> follows p q
            \<and> x \<in> set (RESI_NAMES C) \<and> y \<in> set (RESI_NAMES C)
            \<and> (compute_chain_pos_aa_mapping pdb_df c p = Some x
                \<or> compute_chain_pos_aa_mapping pdb_df c q = Some y)
          \<longrightarrow> has_label G (mk_node_id c p x) (mk_node_id c q y) ''backbone'')
    \<and> (\<forall>a b. has_label G a b ''backbone'' \<longrightarrow>
          (\<exists>c p q x y. (c, p, x) \<in> residues pdb_df \<and> (c, q, y) \<in> residues pdb_df
             \<and> (follows p q \<or> ends_of_range p q)
             \<and> x \<in> set (RESI_NAMES C) \<and> y \<in> set (RESI_NAMES C)
             \<and> edge_is a b (mk_node_id c p x, mk_node_id c q y)))"
proof -
  from reachable_backbone_labels [OF assms(1)] obtain G0 where
    G0: "backbone_graph C pdb_df (compute_chain_pos_aa_mapping pdb_df) = Inr G0"
    and same: "\<And>a b. has_label G a b ''backbone'' = has_label G0 a b ''backbone''"
    by blast
  have first: "has_label G (mk_node_id c p x) (mk_node_id c q y) ''backbone''"
    if "(c, p, x) \<in> atom_residues pdb_df" "(c, q, y) \<in> atom_residues pdb_df" "follows p q"
      "x \<in> set (RESI_NAMES C)" "y \<in> set (RESI_NAMES C)"
      "compute_chain_pos_aa_mapping pdb_df c p = Some x
        \<or> compute_chain_pos_aa_mapping pdb_df c q = Some y"
    for c p q x y
  proof -
    have q: "q = p + 1"
      using that(3) by (simp add: successor_iff)
    show ?thesis
      unfolding same q
      using backbone_graph_links [OF G0 assms(2), of c p x y] that(1,2,4,5,6)
      unfolding q by blast
  qed
  have second: "\<exists>c p q x y. (c, p, x) \<in> residues pdb_df \<and> (c, q, y) \<in> residues pdb_df
             \<and> (follows p q \<or> ends_of_range p q)
             \<and> x \<in> set (RESI_NAMES C) \<and> y \<in> set (RESI_NAMES C)
             \<and> edge_is a b (mk_node_id c p x, mk_node_id c q y)"
    if "has_label G a b ''backbone''" for a b
  proof -
    from that obtain K where "edge_kind G0 a b = Some K"
      unfolding same by (auto simp: has_label_def split: option.splits)
    from backbone_graph_result(2) [OF G0 this] have "seq_adjacent C pdb_df a b"
      by simp
    then obtain c p x y where "(c, p, x) \<in> residues pdb_df" "(c, p + 1, y) \<in> residues pdb_df"
      "x \<in> set (RESI_NAMES C)" "y \<in> set (RESI_NAMES C)"
      "edge_is a b (mk_node_id c p x, mk_node_id c (p + 1) y)"
      unfolding seq_adjacent_def by blast
    moreover have "follows p (p + 1) \<or> ends_of_range p (p + 1)"
      using successor_iff [of "p + 1" p] by simp
    ultimately show ?thesis
      by blast
  qed
  show ?thesis
    using first second by blast
qed

text \<open>When no position carries two residue types, the mapping records every residue.\<close>

lemma mapping_records:
  assumes "(c, p, x) \<in> residues pdb_df"
    and "\<And>x'. (c, p, x') \<in> residues pdb_df \<Longrightarrow> x' = x"
  shows "compute_chain_pos_aa_mapping pdb_df c p = Some x"
proof -
  from mapping_defined [OF assms(1)] obtain x' where
    x': "compute_chain_pos_aa_mapping pdb_df c p = Some x'" by blast
  then have "(c, p, x') \<in> residues pdb_df" by (rule mapping_residue)
  then show ?thesis using assms(2) x' by simp
qed

lemma example_two_types_eq:
  "backbone_graph example_alphabet example_two_types
      (compute_chain_pos_aa_mapping example_two_types)
    = Inr example_two_types_backbone"
  by (simp add: backbone_graph_def compute_chain_pos_aa_mapping_def store_aa_def add_nodes_def
      example_two_types_def example_alphabet_def
      atm_def upt_conv_Cons id_eval first_CA_def graph_eval ebind_Inr ebind_Inl backbone_link_def
      example_resi_atoms_def example_two_types_backbone_def Let_def cong: ebind_weak_cong)

lemma example_two_types_unique_ids: "unique_ids example_two_types"
  by (simp add: unique_ids_def example_two_types_def upt_conv_Cons node_id_atm residue_atm
      str_int_example)

lemma atom_residues_atm:
  "atm a res chain num x y z \<in> set (map snd pdb_df) \<Longrightarrow> (chain, num, res) \<in> atom_residues pdb_df"
proof -
  assume "atm a res chain num x y z \<in> set (map snd pdb_df)"
  moreover have "record_name (atm a res chain num x y z) = ''ATOM''"
    by (simp add: atm_def)
  ultimately have "residue (atm a res chain num x y z) \<in> atom_residues pdb_df"
    unfolding atom_residues_def by (intro imageI CollectI conjI)
  then show ?thesis
    by (simp add: residue_atm)
qed

lemma example_two_types_residues:
  "(''A'', 1, ''ALA'') \<in> atom_residues example_two_types"
  "(''A'', 1 + 1, ''GLY'') \<in> atom_residues example_two_types"
proof -
  show "(''A'', 1, ''ALA'') \<in> atom_residues example_two_types"
    by (rule atom_residues_atm [of "''CA''" _ _ _ 0 0 0])
      (simp add: example_two_types_def upt_conv_Cons)
  have "(''A'', 2, ''GLY'') \<in> atom_residues example_two_types"
    by (rule atom_residues_atm [of "''CA''" _ _ _ 3 0 0])
      (simp add: example_two_types_def upt_conv_Cons)
  then show "(''A'', 1 + 1, ''GLY'') \<in> atom_residues example_two_types"
    by simp
qed

lemma str_int_ends:
  "str_int 9223372036854775807 = ''9223372036854775807''"
  "str_int (- 9223372036854775808) = ''-9223372036854775808''"
  by (simp_all add: str_int_def str_nat.simps digit_char_def)

lemma example_wrap_eq:
  "backbone_graph example_alphabet example_wrap (compute_chain_pos_aa_mapping example_wrap)
    = Inr example_wrap_backbone"
  by (simp add: backbone_graph_def compute_chain_pos_aa_mapping_def store_aa_def add_nodes_def
      example_wrap_def example_alphabet_def
      atm_def upt_conv_Cons node_id_def mk_node_id_def str_int_ends first_CA_def graph_eval
      ebind_Inr ebind_Inl backbone_link_def
      example_resi_atoms_def example_wrap_backbone_def Let_def cong: ebind_weak_cong)

lemma example_wrap_unique_ids: "unique_ids example_wrap"
  by (simp add: unique_ids_def example_wrap_def upt_conv_Cons node_id_atm residue_atm
      str_int_ends)

text \<open>
  Claim C7, as stated, at two concrete inputs, both tables that satisfy the input
  contract and on which graph construction succeeds.

  In the first, \<^verbatim>\<open>ALA\<close> at position 1 and \<^verbatim>\<open>GLY\<close> at position 2 of chain \<^verbatim>\<open>A\<close> are
  residues of the canonical alphabet with atoms of record type \<^verbatim>\<open>ATOM\<close>, and no graph
  state of the run has an edge labelled \<^verbatim>\<open>backbone\<close> between \<^verbatim>\<open>A1ALA\<close> and \<^verbatim>\<open>A2GLY\<close>:
  the chain-position mapping keeps one residue type for each position, \<^verbatim>\<open>VAL\<close> and
  \<^verbatim>\<open>SER\<close> here, and every backbone edge has one of them at an end.

  In the second, the only residues are at positions \<open>2\<^sup>6\<^sup>3 - 1\<close> and \<open>- 2\<^sup>6\<^sup>3\<close>, neither
  of which follows the other in the sequence, and the graph after backbone
  construction joins them by an edge labelled \<^verbatim>\<open>backbone\<close>: the program computes the
  neighbouring position on 64-bit integers, where \<open>2\<^sup>6\<^sup>3 - 1 + 1\<close> is \<open>- 2\<^sup>6\<^sup>3\<close>.
\<close>

theorem backbone_connectivity_fails:
  "unique_ids example_two_types
   \<and> (''A'', 1, ''ALA'') \<in> atom_residues example_two_types
   \<and> (''A'', 1 + 1, ''GLY'') \<in> atom_residues example_two_types
   \<and> ''ALA'' \<in> set (RESI_NAMES example_alphabet)
   \<and> ''GLY'' \<in> set (RESI_NAMES example_alphabet)
   \<and> mk_node_id ''A'' 1 ''ALA'' = ''A1ALA'' \<and> mk_node_id ''A'' (1 + 1) ''GLY'' = ''A2GLY''
   \<and> reachable example_alphabet example_two_types example_two_types_backbone
   \<and> \<not> (\<exists>G. reachable example_alphabet example_two_types G
            \<and> has_label G ''A1ALA'' ''A2GLY'' ''backbone'')
   \<and> unique_ids example_wrap
   \<and> residues example_wrap
       = {(''A'', 9223372036854775807, ''ALA''), (''A'', - 9223372036854775808, ''GLY'')}
   \<and> \<not> follows 9223372036854775807 (- 9223372036854775808)
   \<and> \<not> follows (- 9223372036854775808) 9223372036854775807
   \<and> mk_node_id ''A'' 9223372036854775807 ''ALA'' = ''A9223372036854775807ALA''
   \<and> mk_node_id ''A'' (- 9223372036854775808) ''GLY'' = ''A-9223372036854775808GLY''
   \<and> reachable example_alphabet example_wrap example_wrap_backbone
   \<and> has_label example_wrap_backbone ''A9223372036854775807ALA'' ''A-9223372036854775808GLY''
        ''backbone''"
proof -
  have alphabet: "''ALA'' \<in> set (RESI_NAMES example_alphabet)"
    "''GLY'' \<in> set (RESI_NAMES example_alphabet)"
    by (simp_all add: example_alphabet_def)
  have ids: "mk_node_id ''A'' 1 ''ALA'' = ''A1ALA''" "mk_node_id ''A'' (1 + 1) ''GLY'' = ''A2GLY''"
    by (simp_all add: id_eval)
  have start: "reachable example_alphabet example_two_types example_two_types_backbone"
    by (rule reachable.backbone) (rule example_two_types_eq)
  have none: "\<not> has_label example_two_types_backbone ''A1ALA'' ''A2GLY'' ''backbone''"
    by (simp add: has_label_def edge_kind_def edge_attrs_def edge_is_def
        example_two_types_backbone_def link_def)
  have "\<not> has_label G ''A1ALA'' ''A2GLY'' ''backbone''"
    if "reachable example_alphabet example_two_types G" for G
    using reachable_backbone_labels [OF that] none by (simp add: example_two_types_eq)
  then have first: "unique_ids example_two_types
   \<and> (''A'', 1, ''ALA'') \<in> atom_residues example_two_types
   \<and> (''A'', 1 + 1, ''GLY'') \<in> atom_residues example_two_types
   \<and> ''ALA'' \<in> set (RESI_NAMES example_alphabet)
   \<and> ''GLY'' \<in> set (RESI_NAMES example_alphabet)
   \<and> mk_node_id ''A'' 1 ''ALA'' = ''A1ALA'' \<and> mk_node_id ''A'' (1 + 1) ''GLY'' = ''A2GLY''
   \<and> reachable example_alphabet example_two_types example_two_types_backbone
   \<and> \<not> (\<exists>G. reachable example_alphabet example_two_types G
            \<and> has_label G ''A1ALA'' ''A2GLY'' ''backbone'')"
    using example_two_types_unique_ids example_two_types_residues alphabet ids start by blast
  have res: "residues example_wrap
      = {(''A'', 9223372036854775807, ''ALA''), (''A'', - 9223372036854775808, ''GLY'')}"
    by (simp add: residues_def example_wrap_def upt_conv_Cons residue_atm)
  have far: "\<not> follows 9223372036854775807 (- 9223372036854775808)"
    "\<not> follows (- 9223372036854775808) 9223372036854775807"
    by (simp_all add: follows_def)
  have wrap_ids: "mk_node_id ''A'' 9223372036854775807 ''ALA'' = ''A9223372036854775807ALA''"
    "mk_node_id ''A'' (- 9223372036854775808) ''GLY'' = ''A-9223372036854775808GLY''"
    by (simp_all add: mk_node_id_def str_int_ends)
  have wrap_start: "reachable example_alphabet example_wrap example_wrap_backbone"
    by (rule reachable.backbone) (rule example_wrap_eq)
  have wrap_label: "has_label example_wrap_backbone ''A9223372036854775807ALA''
      ''A-9223372036854775808GLY'' ''backbone''"
    by (simp add: has_label_def edge_kind_def edge_attrs_def edge_is_def
        example_wrap_backbone_def link_def)
  show ?thesis
    using first example_wrap_unique_ids res far wrap_ids wrap_start wrap_label by blast
qed

theorem backbone_connectivity_witness:
  "reachable example_resi_atoms example_pdb example_ionic \<and> unique_ids example_pdb
   \<and> (''A'', 1, ''ARG'') \<in> atom_residues example_pdb
   \<and> (''A'', 2, ''ASP'') \<in> atom_residues example_pdb
   \<and> follows 1 2
   \<and> ''ARG'' \<in> set (RESI_NAMES example_resi_atoms)
   \<and> ''ASP'' \<in> set (RESI_NAMES example_resi_atoms)
   \<and> compute_chain_pos_aa_mapping example_pdb ''A'' 1 = Some ''ARG''
   \<and> has_label example_ionic (mk_node_id ''A'' 1 ''ARG'') (mk_node_id ''A'' 2 ''ASP'') ''backbone''
   \<and> (\<exists>c p q x y. (c, p, x) \<in> residues example_pdb \<and> (c, q, y) \<in> residues example_pdb
         \<and> (follows p q \<or> ends_of_range p q)
         \<and> x \<in> set (RESI_NAMES example_resi_atoms) \<and> y \<in> set (RESI_NAMES example_resi_atoms)
         \<and> edge_is (mk_node_id ''A'' 1 ''ARG'') (mk_node_id ''A'' 2 ''ASP'')
              (mk_node_id c p x, mk_node_id c q y))"
proof -
  note main = backbone_connectivity [OF example_ionic_reachable example_unique_ids]
  have res: "(''A'', 1, ''ARG'') \<in> atom_residues example_pdb"
    "(''A'', 2, ''ASP'') \<in> atom_residues example_pdb"
  proof -
    show "(''A'', 1, ''ARG'') \<in> atom_residues example_pdb"
      by (rule atom_residues_atm [of "''CA''" _ _ _ 0 0 0])
        (simp add: example_pdb_def upt_conv_Cons)
    show "(''A'', 2, ''ASP'') \<in> atom_residues example_pdb"
      by (rule atom_residues_atm [of "''CA''" _ _ _ 3 0 0])
        (simp add: example_pdb_def upt_conv_Cons)
  qed
  have next_position: "follows 1 2"
    by (simp add: follows_def)
  have alphabet: "''ARG'' \<in> set (RESI_NAMES example_resi_atoms)"
    "''ASP'' \<in> set (RESI_NAMES example_resi_atoms)"
    by (simp_all add: example_resi_atoms_def)
  have rec: "compute_chain_pos_aa_mapping example_pdb ''A'' 1 = Some ''ARG''"
    by (simp add: compute_chain_pos_aa_mapping_def store_aa_def example_pdb_def atm_def
        upt_conv_Cons)
  have lab: "has_label example_ionic (mk_node_id ''A'' 1 ''ARG'') (mk_node_id ''A'' 2 ''ASP'')
      ''backbone''"
    using main res next_position alphabet rec by blast
  then have "\<exists>c p q x y. (c, p, x) \<in> residues example_pdb \<and> (c, q, y) \<in> residues example_pdb
         \<and> (follows p q \<or> ends_of_range p q)
         \<and> x \<in> set (RESI_NAMES example_resi_atoms) \<and> y \<in> set (RESI_NAMES example_resi_atoms)
         \<and> edge_is (mk_node_id ''A'' 1 ''ARG'') (mk_node_id ''A'' 2 ''ASP'')
              (mk_node_id c p x, mk_node_id c q y)"
    using main by blast
  then show ?thesis
    using example_ionic_reachable example_unique_ids res next_position alphabet rec lab by blast
qed

section \<open>Running a detector twice\<close>

lemma aromatic_node_commit_list:
  "aromatic_node C (commit_list G ks ps) n = aromatic_node C G n"
  by (simp add: aromatic_node_def node_residue_name_commit_list)

lemma named_commit_list: "named (commit_list G ks ps) n = named G n"
  by (simp add: named_def node_residue_name_commit_list)

lemma finish_commits:
  assumes "finish C func G ps = Inr G'" and "func \<noteq> Ionic"
  shows "G' = commit_list G [label func] ps"
  using assms by (cases func) (simp_all add: aromatic_loop_result)

lemma finish_again:
  assumes "finish C func G ps = Inr G'" and "func \<noteq> Ionic"
  shows "finish C func G' ps = Inr (commit_list G' [label func] ps)"
proof (cases "func = Aromatic")
  case True
  then have "\<forall>p \<in> set ps. aromatic_node C G (fst p) \<and> aromatic_node C G (snd p)"
    and "G' = commit_list G [''aromatic''] ps"
    using assms(1) by (simp_all add: aromatic_loop_result)
  then have "\<forall>p \<in> set ps. aromatic_node C G' (fst p) \<and> aromatic_node C G' (snd p)"
    by (simp add: aromatic_node_commit_list)
  then show ?thesis
    using True by (simp add: aromatic_loop_result)
next
  case False
  then show ?thesis
    using assms(2) by (cases func) simp_all
qed

lemma commit_list_twice:
  "edge_kind (commit_list (commit_list G ks ps) ks ps) a b = edge_kind (commit_list G ks ps) a b"
  by (simp add: edge_kind_commit_list labels_def Un_assoc)

lemma detector_twice:
  assumes run: "run_detector C df rgroup_df func G = Inr G1" and "func \<noteq> Ionic"
  shows "\<exists>G2. run_detector C df rgroup_df func G1 = Inr G2
    \<and> (\<forall>a b. edge_kind G2 a b = edge_kind G1 a b)"
proof -
  from run obtain ps where ps: "detector_pairs C df rgroup_df func = Inr ps"
    and fin: "finish C func G ps = Inr G1"
    unfolding run_detector_finish by (auto simp: ebind_eq_Inr)
  have G1: "G1 = commit_list G [label func] ps"
    using fin assms(2) by (rule finish_commits)
  have "run_detector C df rgroup_df func G1 = Inr (commit_list G1 [label func] ps)"
    unfolding run_detector_finish ps ebind_Inr using fin assms(2) by (rule finish_again)
  moreover have "edge_kind (commit_list G1 [label func] ps) a b = edge_kind G1 a b" for a b
    unfolding G1 by (rule commit_list_twice)
  ultimately show ?thesis
    by blast
qed

text \<open>The kind set that the ionic detector leaves between two nodes.\<close>

lemma ionic_kinds_twice:
  fixes cand charged :: bool
  defines "f \<equiv> \<lambda>K :: string set option.
    (let x = (if cand then Some (insert ''ionic'' (case K of None \<Rightarrow> {} | Some L \<Rightarrow> L)) else K)
     in if (case x of None \<Rightarrow> False | Some L \<Rightarrow> ''ionic'' \<in> L) \<and> \<not> charged
        then strip_ionic x else x)"
  shows "f (f K) = f K"
  by (cases K) (auto simp: f_def Let_def strip_ionic_def split: if_splits option.splits)

lemma ionic_twice:
  assumes run: "add_ionic_interactions C rgroup_df G = Inr G1" and wf: "wf_edges G"
  shows "\<exists>G2. add_ionic_interactions C rgroup_df G1 = Inr G2
    \<and> (\<forall>a b. edge_kind G2 a b = edge_kind G1 a b)"
proof -
  have "run_detector C rgroup_df rgroup_df Ionic G = Inr G1"
    using run by simp
  then obtain ps where ps: "detector_pairs C rgroup_df rgroup_df Ionic = Inr ps"
    and fin: "finish C Ionic G ps = Inr G1"
    unfolding run_detector_finish by (auto simp: ebind_eq_Inr)
  let ?H0 = "commit_list G [''ionic''] ps" and ?H1 = "commit_list G1 [''ionic''] ps"
  have loop: "ionic_check_loop C ?H0 (get_edges_by_bond_type ?H0 ''ionic'') = Inr G1"
    using fin by simp
  have wfH0: "wf_edges ?H0"
    using wf by (rule wf_commit_list)
  have wf1: "wf_edges G1"
    using wfH0 loop by (simp add: ionic_check_loop_result(3))
  have wfH1: "wf_edges ?H1"
    using wf1 by (rule wf_commit_list)
  have nodes: "nodes G1 = nodes ?H0"
    using loop by (rule ionic_check_loop_result(1))
  have named1: "named ?H1 n = named ?H0 n" for n
    using named_nodes [OF nodes, of n] by (simp add: named_commit_list)
  have charged1: "charged_pair C G1 a b = charged_pair C G a b" for a b
    using charged_pair_nodes [OF nodes, of C a b] by (simp add: charged_pair_commit_list)
  have kinds0: "edge_kind G1 a b =
      (if has_label ?H0 a b ''ionic'' \<and> \<not> charged_pair C G a b then strip_ionic (edge_kind ?H0 a b)
       else edge_kind ?H0 a b)" for a b
    using ionic_check_loop_result(2) [OF loop, of a b] labelled_keys [OF wfH0, of "''ionic''" a b]
    by (simp add: charged_pair_commit_list)
  have sub: "has_label ?H0 a b ''ionic''" if "has_label ?H1 a b ''ionic''" for a b
  proof (cases "\<exists>p \<in> set ps. edge_is a b p")
    case True
    then show ?thesis
      by (simp add: has_label_def edge_kind_commit_list)
  next
    case False
    then have "has_label G1 a b ''ionic''"
      using that by (simp add: has_label_def edge_kind_commit_list)
    then show ?thesis
      unfolding has_label_def kinds0 [of a b]
      by (auto simp: strip_ionic_def split: option.splits if_splits)
  qed
  have ok0: "\<forall>p \<in> set (get_edges_by_bond_type ?H0 ''ionic''). named ?H0 (fst p) \<and> named ?H0 (snd p)"
    using loop ionic_check_loop_succeeds [of C ?H0 "get_edges_by_bond_type ?H0 ''ionic''"]
    by blast
  have ok1: "\<forall>p \<in> set (get_edges_by_bond_type ?H1 ''ionic''). named ?H1 (fst p) \<and> named ?H1 (snd p)"
  proof
    fix p assume p: "p \<in> set (get_edges_by_bond_type ?H1 ''ionic'')"
    have "edge_is (fst p) (snd p) p"
      by (cases p) (simp add: edge_is_pair)
    then have "has_label ?H1 (fst p) (snd p) ''ionic''"
      using labelled_keys [OF wfH1, of "''ionic''" "fst p" "snd p"] p by blast
    then have "has_label ?H0 (fst p) (snd p) ''ionic''"
      by (rule sub)
    then obtain q where q: "q \<in> set (get_edges_by_bond_type ?H0 ''ionic'')"
      and mt: "edge_is (fst p) (snd p) q"
      using labelled_keys [OF wfH0, of "''ionic''" "fst p" "snd p"] by blast
    from ok0 q have "named ?H0 (fst q) \<and> named ?H0 (snd q)"
      by blast
    moreover from mt have "(fst p = fst q \<and> snd p = snd q) \<or> (fst p = snd q \<and> snd p = fst q)"
      by (cases q) (simp add: edge_is_pair)
    ultimately have "named ?H0 (fst p) \<and> named ?H0 (snd p)"
      by auto
    then show "named ?H1 (fst p) \<and> named ?H1 (snd p)"
      by (simp add: named1)
  qed
  then obtain G2 where loop2: "ionic_check_loop C ?H1 (get_edges_by_bond_type ?H1 ''ionic'') = Inr G2"
    using ionic_check_loop_succeeds [of C ?H1 "get_edges_by_bond_type ?H1 ''ionic''"] by blast
  have "run_detector C rgroup_df rgroup_df Ionic G1 = Inr G2"
    unfolding run_detector_finish ps ebind_Inr using loop2 by simp
  then have run2: "add_ionic_interactions C rgroup_df G1 = Inr G2"
    by simp
  from add_ionic_interactions_result [OF run wf, of rgroup_df] ps
  have k1: "edge_kind G1 a b =
          (let x = (if \<exists>p \<in> set ps. edge_is a b p then Some (insert ''ionic'' (labels G a b))
                    else edge_kind G a b)
           in if (case x of None \<Rightarrow> False | Some K \<Rightarrow> ''ionic'' \<in> K) \<and> \<not> charged_pair C G a b
              then strip_ionic x else x)" for a b
    by simp
  from add_ionic_interactions_result [OF run2 wf1, of rgroup_df] ps
  have k2: "edge_kind G2 a b =
          (let x = (if \<exists>p \<in> set ps. edge_is a b p then Some (insert ''ionic'' (labels G1 a b))
                    else edge_kind G1 a b)
           in if (case x of None \<Rightarrow> False | Some K \<Rightarrow> ''ionic'' \<in> K) \<and> \<not> charged_pair C G a b
              then strip_ionic x else x)" for a b
    by (simp add: charged1)
  have "edge_kind G2 a b = edge_kind G1 a b" for a b
    using ionic_kinds_twice [where cand = "\<exists>p \<in> set ps. edge_is a b p"
        and charged = "charged_pair C G a b" and K = "edge_kind G a b"]
    unfolding k2 [of a b] labels_def k1 [of a b, unfolded labels_def, symmetric]
    unfolding k1 [of a b, unfolded labels_def] .
  then show ?thesis
    using run2 by blast
qed

section \<open>The edges a detector leaves alone\<close>

lemma reachable_ionic_charged:
  assumes "reachable C pdb_df G" and "has_label G a b ''ionic''"
  shows "charged_pair C G a b"
  using assms
proof (induction arbitrary: a b rule: reachable.induct)
  case (backbone G)
  from backbone(2) obtain K where K: "edge_kind G a b = Some K" and "''ionic'' \<in> K"
    by (auto simp: has_label_def split: option.splits)
  then show ?case
    using backbone_graph_result(2) [OF backbone(1) K] by simp
next
  case (detector G rgroup_df func G')
  show ?case
  proof (cases "func = Ionic")
    case False
    from detector_commits [OF detector(3) False] obtain ps where
      G': "G' = commit_list G [label func] ps" by blast
    have "''ionic'' \<notin> set [label func]"
      using False by (cases func) simp_all
    then have "has_label G a b ''ionic''"
      using detector.prems unfolding G' by (simp add: has_label_commit_list)
    then have "charged_pair C G a b"
      by (rule detector.IH)
    then show ?thesis
      unfolding G' by (simp add: charged_pair_commit_list)
  next
    case True
    then have run: "add_ionic_interactions C rgroup_df G = Inr G'"
      using detector(3) by simp
    from add_ionic_interactions_result [OF run reachable_wf [OF detector(1)], of pdb_df]
    obtain ps where
      names: "\<And>n a. node_residue_name G' n = Inr a \<longleftrightarrow> node_residue_name G n = Inr a"
      and kinds: "\<And>a b. edge_kind G' a b =
          (let x = (if \<exists>p \<in> set ps. edge_is a b p then Some (insert ''ionic'' (labels G a b))
                    else edge_kind G a b)
           in if (case x of None \<Rightarrow> False | Some K \<Rightarrow> ''ionic'' \<in> K) \<and> \<not> charged_pair C G a b
              then strip_ionic x else x)"
      by blast
    have "charged_pair C G a b"
      using detector.prems unfolding has_label_def kinds [of a b]
      by (auto simp: Let_def strip_ionic_def split: option.splits if_splits)
    then show ?thesis
      by (simp add: charged_pair_iff names)
  qed
qed

lemma detector_frame:
  assumes reach: "reachable C pdb_df G"
    and run: "run_detector C pdb_df rgroup_df func G = Inr G1"
  shows "\<exists>ps. detector_pairs C pdb_df rgroup_df func = Inr ps
    \<and> (\<forall>a b. (\<forall>p \<in> set ps. \<not> edge_is a b p) \<longrightarrow> edge_kind G1 a b = edge_kind G a b)"
proof (cases "func = Ionic")
  case False
  from detector_commits [OF run False] show ?thesis
    by (auto simp: edge_kind_commit_list)
next
  case True
  then have run': "add_ionic_interactions C rgroup_df G = Inr G1"
    using run by simp
  from add_ionic_interactions_result [OF run' reachable_wf [OF reach], of pdb_df]
  obtain ps where ps: "detector_pairs C pdb_df rgroup_df Ionic = Inr ps"
    and kinds: "\<And>a b. edge_kind G1 a b =
          (let x = (if \<exists>p \<in> set ps. edge_is a b p then Some (insert ''ionic'' (labels G a b))
                    else edge_kind G a b)
           in if (case x of None \<Rightarrow> False | Some K \<Rightarrow> ''ionic'' \<in> K) \<and> \<not> charged_pair C G a b
              then strip_ionic x else x)"
    by blast
  have "edge_kind G1 a b = edge_kind G a b" if "\<forall>p \<in> set ps. \<not> edge_is a b p" for a b
  proof -
    have "charged_pair C G a b" if "has_label G a b ''ionic''"
      using reach that by (rule reachable_ionic_charged)
    then show ?thesis
      using \<open>\<forall>p \<in> set ps. \<not> edge_is a b p\<close> unfolding kinds [of a b]
      by (auto simp: Let_def has_label_def split: option.splits)
  qed
  then show ?thesis
    using ps True by blast
qed

text \<open>
  Claim C5. Take a graph state of a run and a detector that returns on it. Then the
  detector returns again on the graph it produced, and the second run changes nothing:
  between any two nodes there is an edge after the second run exactly when there is one
  after the first, with the same kind set. And the first run leaves alone every pair of
  nodes that is not among the pairs the detector commits: such a pair has an edge after
  the run exactly when it had one before, with the same kind set.
\<close>

theorem detector_idempotent:
  assumes "reachable C pdb_df G" and "get_rgroup_dataframe C pdb_df = Inr rgroup_df"
    and "run_detector C pdb_df rgroup_df func G = Inr G1"
  shows "(\<exists>G2. run_detector C pdb_df rgroup_df func G1 = Inr G2
            \<and> (\<forall>a b. edge_kind G2 a b = edge_kind G1 a b))
    \<and> (\<exists>ps. detector_pairs C pdb_df rgroup_df func = Inr ps
          \<and> (\<forall>a b. (\<forall>p \<in> set ps. \<not> edge_is a b p) \<longrightarrow> edge_kind G1 a b = edge_kind G a b))"
proof -
  have "\<exists>G2. run_detector C pdb_df rgroup_df func G1 = Inr G2
      \<and> (\<forall>a b. edge_kind G2 a b = edge_kind G1 a b)"
  proof (cases "func = Ionic")
    case False
    with assms(3) show ?thesis by (rule detector_twice)
  next
    case True
    then have "add_ionic_interactions C rgroup_df G = Inr G1"
      using assms(3) by simp
    from ionic_twice [OF this reachable_wf [OF assms(1)]] show ?thesis
      using True by simp
  qed
  then show ?thesis
    using detector_frame [OF assms(1) assms(3)] by blast
qed

theorem detector_idempotent_witness:
  "reachable example_resi_atoms example_pdb example_backbone
   \<and> get_rgroup_dataframe example_resi_atoms example_pdb = Inr example_rgroup
   \<and> run_detector example_resi_atoms example_pdb example_rgroup Ionic example_backbone
       = Inr example_ionic
   \<and> (\<exists>G2. run_detector example_resi_atoms example_pdb example_rgroup Ionic example_ionic = Inr G2
          \<and> (\<forall>a b. edge_kind G2 a b = edge_kind example_ionic a b))
   \<and> (\<exists>ps. detector_pairs example_resi_atoms example_pdb example_rgroup Ionic = Inr ps
          \<and> (\<forall>a b. (\<forall>p \<in> set ps. \<not> edge_is a b p)
                \<longrightarrow> edge_kind example_ionic a b = edge_kind example_backbone a b))"
proof -
  have run: "run_detector example_resi_atoms example_pdb example_rgroup Ionic example_backbone
      = Inr example_ionic"
    using example_ionic_eq by simp
  show ?thesis
    using example_backbone_reachable example_rgroup_eq run
      detector_idempotent [OF example_backbone_reachable example_rgroup_eq run]
    by blast
qed

end
